theory Spec2Isabelle
  imports Complex_Main "HOL-Library.Multiset"
begin


section \<open>JavaScript values used by the gallery module\<close>

text \<open>
  Strings are lists of 8-bit characters; every string the gallery handles (network keys,
  contract addresses, token ids, subgraph ids, signatures) is ASCII. \<open>toLowerCase\<close> is
  modelled on the ASCII letters.
\<close>

definition toLowerCase_char :: "char \<Rightarrow> char" where
  "toLowerCase_char c =
     (case map_of (zip ''ABCDEFGHIJKLMNOPQRSTUVWXYZ'' ''abcdefghijklmnopqrstuvwxyz'') c of
        Some l \<Rightarrow> l
      | None \<Rightarrow> c)"

definition toLowerCase :: "string \<Rightarrow> string" where
  "toLowerCase s = map toLowerCase_char s"

text \<open>
  Digits of a non-negative integer in a radix, most significant first, as
  \<open>Number.prototype.toString(radix)\<close> and template literals print them (lowercase).
\<close>

definition digit_char :: "nat \<Rightarrow> char" where
  "digit_char d = ''0123456789abcdefghijklmnopqrstuvwxyz'' ! d"

function to_radix :: "nat \<Rightarrow> nat \<Rightarrow> string" where
  "to_radix b n =
     (if b < 2 \<or> n < b then [digit_char n]
      else to_radix b (n div b) @ [digit_char (n mod b)])"
  by pat_completeness auto
termination
  by (relation "measure snd") auto

declare to_radix.simps [simp del]

definition decimal :: "nat \<Rightarrow> string" where
  "decimal n = to_radix 10 n"

definition hexadecimal :: "nat \<Rightarrow> string" where
  "hexadecimal n = to_radix 16 n"

text \<open>The value a call returns, for the functions whose return value matters here.\<close>

datatype js_value = Undefined | Number nat | Boolean bool

text \<open>The numbers that \<open>parseInt\<close> and \<open>Math.ceil\<close> of a quotient can yield.\<close>

datatype js_number = NaN | Infinity | Finite int

section \<open>A JavaScript \<open>Map\<close> in insertion order\<close>

text \<open>
  \<open>Map.prototype.set\<close> overwrites the value of a present key in place and appends a new
  key at the end; \<open>delete\<close> removes the key's entry; iteration follows the list.
\<close>

fun map_get :: "('k \<times> 'v) list \<Rightarrow> 'k \<Rightarrow> 'v option" where
  "map_get [] k = None"
| "map_get ((k', v) # m) k = (if k' = k then Some v else map_get m k)"

fun map_set :: "('k \<times> 'v) list \<Rightarrow> 'k \<Rightarrow> 'v \<Rightarrow> ('k \<times> 'v) list" where
  "map_set [] k v = [(k, v)]"
| "map_set ((k', v') # m) k v = (if k' = k then (k, v) # m else (k', v') # map_set m k v)"

fun map_delete :: "('k \<times> 'v) list \<Rightarrow> 'k \<Rightarrow> ('k \<times> 'v) list" where
  "map_delete [] k = []"
| "map_delete ((k', v') # m) k = (if k' = k then m else (k', v') # map_delete m k)"

section \<open>TOKEN_URI_CACHE\<close>

record cache_entry =
  tokenURI :: string
  timestamp :: nat
  network :: string
  contractAddress :: string

type_synonym token_uri_cache = "(string \<times> cache_entry) list"

text \<open>
  The template literal \<open>`${networkKey}_${contractAddress.toLowerCase()}_${tokenId}`\<close>.
  The token id is given as the template literal prints it: a string as it is, the number
  \<open>i\<close> of the fetch loop as \<open>decimal i\<close>.
\<close>

definition getCacheKey :: "string \<Rightarrow> string \<Rightarrow> string \<Rightarrow> string" where
  "getCacheKey contractAddr tokenId networkKey =
     networkKey @ ''_'' @ toLowerCase contractAddr @ ''_'' @ tokenId"

text \<open>\<open>get\<close>: a stored entry is an object, hence truthy; a miss returns \<open>null\<close>.\<close>

definition get_cache :: "token_uri_cache \<Rightarrow> string \<Rightarrow> string \<Rightarrow> string \<Rightarrow> string option" where
  "get_cache cache contractAddr tokenId networkKey =
     (case map_get cache (getCacheKey contractAddr tokenId networkKey) of
        Some cached \<Rightarrow> Some (tokenURI cached)
      | None \<Rightarrow> None)"

text \<open>\<open>set\<close>; the last argument is the value of \<open>Date.now()\<close> at the call.\<close>

definition set_cache ::
  "token_uri_cache \<Rightarrow> string \<Rightarrow> string \<Rightarrow> string \<Rightarrow> string \<Rightarrow> nat \<Rightarrow> token_uri_cache" where
  "set_cache cache contractAddr tokenId networkKey uri now =
     map_set cache (getCacheKey contractAddr tokenId networkKey)
       \<lparr>tokenURI = uri, timestamp = now, network = networkKey,
        contractAddress = toLowerCase contractAddr\<rparr>"

text \<open>
  \<open>clearNetwork\<close>: the loop over \<open>this.cache.entries()\<close>, deleting the visited key when
  its entry carries the network tag and counting the deletions. The iterator runs over
  the live map; deleting the entry just visited leaves the entries still to come in
  place, so the loop visits the entries that were present at the call. The count goes to
  the console; the function has no \<open>return\<close> statement.
\<close>

fun clearNetwork_loop ::
  "string \<Rightarrow> (string \<times> cache_entry) list \<Rightarrow> token_uri_cache \<Rightarrow> nat \<Rightarrow> token_uri_cache \<times> nat" where
  "clearNetwork_loop networkKey [] cache cleared = (cache, cleared)"
| "clearNetwork_loop networkKey ((key, val) # entries) cache cleared =
     (if network val = networkKey
      then clearNetwork_loop networkKey entries (map_delete cache key) (cleared + 1)
      else clearNetwork_loop networkKey entries cache cleared)"

datatype console_line = ClearedEntries nat string

record clearNetwork_result =
  cache_after :: token_uri_cache
  console :: "console_line list"
  returned :: js_value

definition clearNetwork :: "token_uri_cache \<Rightarrow> string \<Rightarrow> clearNetwork_result" where
  "clearNetwork cache networkKey =
     (case clearNetwork_loop networkKey cache cache 0 of
        (cache', cleared) \<Rightarrow>
          \<lparr>cache_after = cache', console = [ClearedEntries cleared networkKey],
           returned = Undefined\<rparr>)"

text \<open>
  \<open>getStats\<close>. \<open>byNetwork\<close> starts as the object literal \<open>{}\<close>, so it inherits the
  members of \<open>Object.prototype\<close>: reading such a name finds a function (truthy), and
  adding 1 to it yields a string, not a count; \<open>__proto__\<close> cannot be given a primitive
  value at all. The model keeps the object's own properties.
\<close>

definition Object_prototype_keys :: "string list" where
  "Object_prototype_keys =
     [''constructor'', ''hasOwnProperty'', ''isPrototypeOf'', ''propertyIsEnumerable'',
      ''toLocaleString'', ''toString'', ''valueOf'', ''__defineGetter__'',
      ''__defineSetter__'', ''__lookupGetter__'', ''__lookupSetter__'', ''__proto__'']"

datatype stat_value = Count nat | NotACount

text \<open>\<open>const network = value.network || 'unknown'\<close>: the empty tag is falsy.\<close>

definition network_label :: "string \<times> cache_entry \<Rightarrow> string" where
  "network_label kv = (if network (snd kv) = [] then ''unknown'' else network (snd kv))"

definition count_network ::
  "(string \<rightharpoonup> stat_value) \<Rightarrow> string \<times> cache_entry \<Rightarrow> (string \<rightharpoonup> stat_value)" where
  "count_network byNet kv =
     (case byNet (network_label kv) of
        Some (Count n) \<Rightarrow> byNet(network_label kv \<mapsto> Count (n + 1))
      | Some NotACount \<Rightarrow> byNet(network_label kv \<mapsto> NotACount)
      | None \<Rightarrow>
          if network_label kv = ''__proto__'' then byNet
          else if network_label kv \<in> set Object_prototype_keys
          then byNet(network_label kv \<mapsto> NotACount)
          else byNet(network_label kv \<mapsto> Count 1))"

record cache_stats =
  totalSize :: nat
  byNetwork :: "string \<rightharpoonup> stat_value"
  keys :: "string list"

definition getStats :: "token_uri_cache \<Rightarrow> cache_stats" where
  "getStats cache =
     \<lparr>totalSize = length cache,
      byNetwork = foldl count_network Map.empty cache,
      keys = map fst cache\<rparr>"

section \<open>\<open>parseInt\<close>, \<open>toString(16)\<close>, \<open>endsWith\<close>, \<open>find\<close>, \<open>slice\<close>, \<open>sort\<close>\<close>

definition isWhiteSpace :: "char \<Rightarrow> bool" where
  "isWhiteSpace c = ((of_char c :: nat) \<in> {9, 10, 11, 12, 13, 32})"

definition digit_value :: "char \<Rightarrow> nat option" where
  "digit_value c =
     (let k = (of_char c :: nat) in
      if 48 \<le> k \<and> k \<le> 57 then Some (k - 48)
      else if 97 \<le> k \<and> k \<le> 122 then Some (k - 87)
      else if 65 \<le> k \<and> k \<le> 90 then Some (k - 55)
      else None)"

definition radix_digit :: "nat \<Rightarrow> char \<Rightarrow> bool" where
  "radix_digit R c = (case digit_value c of Some d \<Rightarrow> d < R | None \<Rightarrow> False)"

definition radix_value :: "nat \<Rightarrow> string \<Rightarrow> nat" where
  "radix_value R z =
     foldl (\<lambda>acc c. case digit_value c of Some d \<Rightarrow> acc * R + d | None \<Rightarrow> acc) 0 z"

text \<open>
  \<open>parseInt(string)\<close> without a radix: leading white space is skipped, a sign is read, a
  \<open>0x\<close>/\<open>0X\<close> prefix selects radix 16, the longest run of digits is converted, and an
  empty run gives \<open>NaN\<close>. The value is exact here; JavaScript rounds it to a double, so
  the model is the code for magnitudes up to \<open>2^53\<close>.
\<close>

definition parseInt :: "string \<Rightarrow> js_number" where
  "parseInt str =
     (let s = dropWhile isWhiteSpace str;
          negative = (s \<noteq> [] \<and> hd s = CHR ''-'');
          s1 = (if s \<noteq> [] \<and> (hd s = CHR ''+'' \<or> hd s = CHR ''-'') then tl s else s);
          stripPrefix = (take 2 s1 = ''0x'' \<or> take 2 s1 = ''0X'');
          R = (if stripPrefix then 16 else 10);
          s2 = (if stripPrefix then drop 2 s1 else s1);
          z = takeWhile (radix_digit R) s2
      in if z = [] then NaN
         else Finite ((if negative then - 1 else 1) * int (radix_value R z)))"

definition number_toString :: "nat \<Rightarrow> js_number \<Rightarrow> string" where
  "number_toString R x =
     (case x of
        NaN \<Rightarrow> ''NaN''
      | Infinity \<Rightarrow> ''Infinity''
      | Finite i \<Rightarrow> if i < 0 then ''-'' @ to_radix R (nat (- i)) else to_radix R (nat i))"

definition endsWith :: "string \<Rightarrow> string \<Rightarrow> bool" where
  "endsWith s searchString =
     (length searchString \<le> length s \<and>
      drop (length s - length searchString) s = searchString)"

fun string_includes :: "string \<Rightarrow> string \<Rightarrow> bool" where
  "string_includes [] searchString = (searchString = [])"
| "string_includes (c # s) searchString =
     (take (length searchString) (c # s) = searchString \<or> string_includes s searchString)"

fun array_find :: "('a \<Rightarrow> bool) \<Rightarrow> 'a list \<Rightarrow> 'a option" where
  "array_find p [] = None"
| "array_find p (x # xs) = (if p x then Some x else array_find p xs)"

text \<open>\<open>Array.prototype.slice(start, end)\<close>: negative arguments count from the end.\<close>

definition array_slice :: "'a list \<Rightarrow> int \<Rightarrow> int \<Rightarrow> 'a list" where
  "array_slice xs start final =
     (let len = int (length xs);
          k = (if start < 0 then max (len + start) 0 else min start len);
          e = (if final < 0 then max (len + final) 0 else min final len)
      in take (nat (e - k)) (drop (nat k) xs))"

text \<open>
  \<open>Array.prototype.sort(comparefn)\<close> is stable, and a comparator result \<open>NaN\<close> counts as
  \<open>0\<close>. For a comparator that orders the elements consistently the result is the stable
  sorted arrangement, which insertion from the right computes; for an inconsistent one
  the language leaves the order to the implementation.
\<close>

fun sort_insert :: "('a \<Rightarrow> 'a \<Rightarrow> int) \<Rightarrow> 'a \<Rightarrow> 'a list \<Rightarrow> 'a list" where
  "sort_insert cmp x [] = [x]"
| "sort_insert cmp x (y # ys) =
     (if cmp x y \<le> 0 then x # y # ys else y # sort_insert cmp x ys)"

definition array_sort :: "('a \<Rightarrow> 'a \<Rightarrow> int) \<Rightarrow> 'a list \<Rightarrow> 'a list" where
  "array_sort cmp xs = foldr (sort_insert cmp) xs []"

section \<open>Cross-referencing the two subgraphs\<close>

record seed =
  seed_id :: string
  tokenId :: string
  revealed :: bool
  holder :: string

record seedMetadata =
  md_id :: string
  md_revealedUri :: "string option"
  md_revealedSignature :: "string option"

record combinedSeed = seed +
  revealedUri :: "string option"
  revealedSignature :: "string option"

text \<open>The callback given to \<open>metadataSignatures.find\<close>, for one seed's \<open>tokenIdStr\<close>.\<close>

definition matchesSeed :: "string \<Rightarrow> seedMetadata \<Rightarrow> bool" where
  "matchesSeed tokenIdStr md =
     (if md_id md = tokenIdStr then True
      else if endsWith (md_id md) (''_'' @ tokenIdStr) then True
      else
        let hexTokenId = ''0x'' @ number_toString 16 (parseInt tokenIdStr) in
        if endsWith (md_id md) (''_'' @ hexTokenId) then True
        else if md_id md = hexTokenId then True
        else False)"

definition findMetadata :: "seedMetadata list \<Rightarrow> seed \<Rightarrow> seedMetadata option" where
  "findMetadata metadataSignatures s = array_find (matchesSeed (tokenId s)) metadataSignatures"

text \<open>\<open>value || null\<close> on a string or \<open>null\<close>: the empty string is falsy.\<close>

definition or_null :: "string option \<Rightarrow> string option" where
  "or_null v = (case v of Some [] \<Rightarrow> None | _ \<Rightarrow> v)"

definition combineSeed :: "seedMetadata list \<Rightarrow> seed \<Rightarrow> combinedSeed" where
  "combineSeed metadataSignatures s =
     (let metadata = findMetadata metadataSignatures s in
      \<lparr>seed_id = seed_id s, tokenId = tokenId s, revealed = revealed s, holder = holder s,
       revealedUri = (case metadata of None \<Rightarrow> None | Some md \<Rightarrow> or_null (md_revealedUri md)),
       revealedSignature =
         (case metadata of None \<Rightarrow> None | Some md \<Rightarrow> or_null (md_revealedSignature md))\<rparr>)"

definition hasSignature :: "combinedSeed \<Rightarrow> bool" where
  "hasSignature s =
     (case revealedSignature s of
        None \<Rightarrow> False
      | Some sig \<Rightarrow> sig \<noteq> [] \<and> sig \<noteq> ''0x'')"

definition notRevealed :: "combinedSeed \<Rightarrow> bool" where
  "notRevealed s = (\<not> revealed s)"

section \<open>The table of seeds that can be revealed, and its pages\<close>

record pagination =
  itemsPerPage :: nat
  currentPage :: int
  totalItems :: nat
  data :: "combinedSeed list"

text \<open>
  \<open>Math.ceil(a / b)\<close> on array lengths, where the double quotient is accurate enough for
  the ceiling to be the exact one: \<open>0 / 0\<close> is \<open>NaN\<close>, \<open>a / 0\<close> is \<open>Infinity\<close>.
\<close>

definition Math_ceil_div :: "nat \<Rightarrow> nat \<Rightarrow> js_number" where
  "Math_ceil_div a b =
     (if b = 0 then (if a = 0 then NaN else Infinity)
      else Finite (int ((a + b - 1) div b)))"

text \<open>\<open>n <= x\<close> and \<open>x > n\<close> for a number \<open>n\<close>: every comparison with \<open>NaN\<close> is false.\<close>

definition number_le :: "int \<Rightarrow> js_number \<Rightarrow> bool" where
  "number_le n x = (case x of NaN \<Rightarrow> False | Infinity \<Rightarrow> True | Finite t \<Rightarrow> n \<le> t)"

definition number_gt :: "js_number \<Rightarrow> int \<Rightarrow> bool" where
  "number_gt x n = (case x of NaN \<Rightarrow> False | Infinity \<Rightarrow> True | Finite t \<Rightarrow> n < t)"

text \<open>
  What \<open>displayUnrevealedTablePaginated\<close> writes into the table element: one row per
  record of \<open>currentPageData\<close>, and the page controls when there is more than one page.
\<close>

record table_row =
  row_seed :: string
  row_holder :: string
  canReveal :: bool

record unrevealed_table =
  table_rows :: "table_row list"
  currentPageData :: "combinedSeed list"
  page_controls :: "(int \<times> js_number) option"

definition render_row :: "combinedSeed \<Rightarrow> table_row" where
  "render_row nft =
     \<lparr>row_seed = (if tokenId nft \<noteq> [] then tokenId nft else seed_id nft),
      row_holder = holder nft,
      canReveal =
        ((case revealedSignature nft of None \<Rightarrow> False | Some sig \<Rightarrow> sig \<noteq> [] \<and> sig \<noteq> ''0x'')
         \<and> \<not> revealed nft)\<rparr>"

definition displayUnrevealedTablePaginated :: "pagination \<Rightarrow> unrevealed_table" where
  "displayUnrevealedTablePaginated p =
     (let totalPages = Math_ceil_div (totalItems p) (itemsPerPage p);
          startIndex = (currentPage p - 1) * int (itemsPerPage p);
          endIndex = min (startIndex + int (itemsPerPage p)) (int (totalItems p));
          pageData = array_slice (data p) startIndex endIndex
      in \<lparr>table_rows = map render_row pageData,
          currentPageData = pageData,
          page_controls = (if number_gt totalPages 1 then Some (currentPage p, totalPages) else None)\<rparr>)"

record unrevealed_view =
  UNREVEALED_PAGINATION :: pagination
  unrevealedTable :: unrevealed_table

definition changePage :: "int \<Rightarrow> unrevealed_view \<Rightarrow> unrevealed_view" where
  "changePage newPage v =
     (let totalPages =
            Math_ceil_div (totalItems (UNREVEALED_PAGINATION v)) (itemsPerPage (UNREVEALED_PAGINATION v))
      in if newPage \<ge> 1 \<and> number_le newPage totalPages
         then
           (let p = (UNREVEALED_PAGINATION v)\<lparr>currentPage := newPage\<rparr>
            in \<lparr>UNREVEALED_PAGINATION = p, unrevealedTable = displayUnrevealedTablePaginated p\<rparr>)
         else v)"

section \<open>\<open>loadUnrevealedNFTs\<close>, in its two variants\<close>

text \<open>
  Both variants take the answers of the two subgraph queries and combine them; they differ
  in the loop that selects the records and in what is stored. The outcome of
  \<open>await getCachedTokenURI(contract, seed.tokenId)\<close> for a record is an input of the
  first variant: a URI, or the error that was thrown.

  Either variant ends in the same way. With at least one selected record it stores the
  records in \<open>UNREVEALED_PAGINATION\<close>, draws the first page and sets
  \<open>unrevealedSection.style.display\<close> to \<open>"block"\<close>; with none it leaves the pagination
  state and the table as they are and hides the section (\<open>"none"\<close>). The result is the
  pagination state and table after the call, and whether the section is displayed.
\<close>

record unrevealed_page =
  page_view :: unrevealed_view
  unrevealedSection_displayed :: bool

record js_error =
  err_code :: "string option"
  err_message :: "string option"

text \<open>
  The variant with the on-chain check: \<open>loadUnrevealedNFTs\<close> of the gallery that fetches
  token URIs in rate-limited batches (lines 675 to 819 of \<open>content-loader.js\<close>).
\<close>

fun select_onchain ::
  "(combinedSeed \<Rightarrow> js_error + string) \<Rightarrow> combinedSeed list \<Rightarrow> combinedSeed list \<Rightarrow> combinedSeed list" where
  "select_onchain currentUriOf [] unrevealedWithSignatures = unrevealedWithSignatures"
| "select_onchain currentUriOf (s # rest) unrevealedWithSignatures =
     (if notRevealed s \<and> hasSignature s then
        (case currentUriOf s of
           Inr currentUri \<Rightarrow>
             if \<not> (Some currentUri = revealedUri s)
             then select_onchain currentUriOf rest (unrevealedWithSignatures @ [s])
             else select_onchain currentUriOf rest unrevealedWithSignatures
         | Inl error \<Rightarrow> select_onchain currentUriOf rest (unrevealedWithSignatures @ [s]))
      else select_onchain currentUriOf rest unrevealedWithSignatures)"

definition loadUnrevealedNFTs_onchain ::
  "(combinedSeed \<Rightarrow> js_error + string) \<Rightarrow> seed list \<Rightarrow> seedMetadata list \<Rightarrow>
     unrevealed_view \<Rightarrow> unrevealed_page" where
  "loadUnrevealedNFTs_onchain currentUriOf mainSeeds metadataSignatures v =
     (let combinedData = map (combineSeed metadataSignatures) mainSeeds;
          unrevealedWithSignatures = select_onchain currentUriOf combinedData []
      in if length unrevealedWithSignatures > 0
         then
           (let p = (UNREVEALED_PAGINATION v)
                      \<lparr>data := unrevealedWithSignatures,
                       totalItems := length unrevealedWithSignatures,
                       currentPage := 1\<rparr>
            in \<lparr>page_view =
                  \<lparr>UNREVEALED_PAGINATION = p, unrevealedTable = displayUnrevealedTablePaginated p\<rparr>,
                unrevealedSection_displayed = True\<rparr>)
         else \<lparr>page_view = v, unrevealedSection_displayed = False\<rparr>)"

text \<open>
  The variant that trusts the subgraph: \<open>loadUnrevealedNFTs\<close> of the gallery that reads
  the revealed seeds from the subgraph (lines 1548 to 1675 of \<open>content-loader.js\<close>).
\<close>

fun select_subgraph :: "combinedSeed list \<Rightarrow> combinedSeed list \<Rightarrow> combinedSeed list" where
  "select_subgraph [] unrevealedWithSignatures = unrevealedWithSignatures"
| "select_subgraph (s # rest) unrevealedWithSignatures =
     (if notRevealed s \<and> hasSignature s
      then select_subgraph rest (unrevealedWithSignatures @ [s])
      else select_subgraph rest unrevealedWithSignatures)"

text \<open>The comparator \<open>(a, b) => parseInt(b.tokenId) - parseInt(a.tokenId)\<close>.\<close>

definition compareTokenId :: "combinedSeed \<Rightarrow> combinedSeed \<Rightarrow> int" where
  "compareTokenId a b =
     (case (parseInt (tokenId b), parseInt (tokenId a)) of
        (Finite x, Finite y) \<Rightarrow> x - y
      | _ \<Rightarrow> 0)"

definition loadUnrevealedNFTs_subgraph ::
  "seed list \<Rightarrow> seedMetadata list \<Rightarrow> unrevealed_view \<Rightarrow> unrevealed_page" where
  "loadUnrevealedNFTs_subgraph mainSeeds metadataSignatures v =
     (let combinedData = map (combineSeed metadataSignatures) mainSeeds;
          unrevealedWithSignatures = select_subgraph combinedData []
      in if length unrevealedWithSignatures > 0
         then
           (let sortedUnrevealedSeeds = array_sort compareTokenId unrevealedWithSignatures;
                p = (UNREVEALED_PAGINATION v)
                      \<lparr>data := sortedUnrevealedSeeds,
                       totalItems := length sortedUnrevealedSeeds,
                       currentPage := 1\<rparr>
            in \<lparr>page_view =
                  \<lparr>UNREVEALED_PAGINATION = p, unrevealedTable = displayUnrevealedTablePaginated p\<rparr>,
                unrevealedSection_displayed = True\<rparr>)
         else \<lparr>page_view = v, unrevealedSection_displayed = False\<rparr>)"

section \<open>\<open>switchNetwork\<close>\<close>

record network_config =
  net_name :: string
  chainId :: nat
  rpcUrl :: string
  plantoidAddress :: string
  blockExplorer :: string
  isTestnet :: bool

text \<open>The own properties of the object literal \<open>NETWORKS\<close> of the configuration file.\<close>

definition NETWORKS :: "(string \<times> network_config) list" where
  "NETWORKS =
     [(''sepolia'',
       \<lparr>net_name = ''Sepolia Testnet'', chainId = 11155111,
        rpcUrl = ''https://sepolia.infura.io/v3/460f40a260564ac4a4f4b3fffb032dad'',
        plantoidAddress = ''0x66078a2061A68d5bA6cDdBc81517837dA0C7d7b5'',
        blockExplorer = ''https://sepolia.etherscan.io'', isTestnet = True\<rparr>),
      (''mainnet'',
       \<lparr>net_name = ''Ethereum Mainnet'', chainId = 1,
        rpcUrl = ''https://mainnet.infura.io/v3/460f40a260564ac4a4f4b3fffb032dad'',
        plantoidAddress = ''0x4073E38f71b2612580E9e381031B0c38B3B4C27E'',
        blockExplorer = ''https://etherscan.io'', isTestnet = False\<rparr>)]"

text \<open>
  \<open>object[key]\<close> on an object literal: an own property, else a member inherited from
  \<open>Object.prototype\<close> (a function, or the prototype itself for \<open>__proto__\<close>), else
  \<open>undefined\<close>. Only \<open>undefined\<close> is falsy here.
\<close>

datatype 'a property = OwnProperty 'a | InheritedProperty | NoProperty

definition property_lookup :: "(string \<times> 'a) list \<Rightarrow> string \<Rightarrow> 'a property" where
  "property_lookup obj key =
     (case map_get obj key of
        Some v \<Rightarrow> OwnProperty v
      | None \<Rightarrow> if key \<in> set Object_prototype_keys then InheritedProperty else NoProperty)"

definition truthy :: "'a property \<Rightarrow> bool" where
  "truthy p = (p \<noteq> NoProperty)"

record 's gallery_state =
  currentNetwork :: string
  networkStorage :: 's
  TOKEN_URI_CACHE :: token_uri_cache
  view :: unrevealed_view

text \<open>
  An \<open>async\<close> function runs up to its first \<open>await\<close> within the call. \<open>switchNetwork\<close>
  either returns \<open>false\<close> at once or reaches \<open>await initializeGallery()\<close> with the module
  state it has written by then (after which it returns \<open>true\<close>). \<open>NETWORK_STORAGE.set\<close>
  is defined outside these files; its effect on the stored preference is a parameter.
\<close>

datatype 's switch_outcome = Returned js_value "'s gallery_state" | AwaitInitializeGallery "'s gallery_state"

definition switchNetwork ::
  "(string \<Rightarrow> 's \<Rightarrow> 's) \<Rightarrow> string \<Rightarrow> 's gallery_state \<Rightarrow> 's switch_outcome" where
  "switchNetwork storage_set networkKey st =
     (if \<not> truthy (property_lookup NETWORKS networkKey) then Returned (Boolean False) st
      else AwaitInitializeGallery
        (st\<lparr>currentNetwork := networkKey,
            networkStorage := storage_set networkKey (networkStorage st),
            view := (view st)\<lparr>UNREVEALED_PAGINATION :=
              (UNREVEALED_PAGINATION (view st))\<lparr>currentPage := 1, totalItems := 0, data := []\<rparr>\<rparr>\<rparr>))"

section \<open>The fetch loop of \<open>loadNFTs\<close>\<close>

record rate_limit_config =
  maxConcurrent :: nat
  delayBetweenBatches :: nat
  batchSize :: nat
  retryDelay :: nat
  randomDelay :: nat

definition RATE_LIMIT_CONFIG :: rate_limit_config where
  "RATE_LIMIT_CONFIG =
     \<lparr>maxConcurrent = 3, delayBetweenBatches = 1000, batchSize = 5, retryDelay = 2000,
      randomDelay = 200\<rparr>"

definition isThrottled :: "js_error \<Rightarrow> bool" where
  "isThrottled error =
     (err_code error = Some ''BAD_DATA''
      \<or> (case err_message error of
            Some m \<Rightarrow> string_includes m ''Too Many Requests'' | None \<Rightarrow> False)
      \<or> (case err_message error of Some m \<Rightarrow> string_includes m ''429'' | None \<Rightarrow> False))"

text \<open>
  One task \<open>loadNFT(tokenId)\<close>. Its inputs are the outcomes of its calls of
  \<open>getCachedTokenURI\<close>, numbered from 0 (a URI, or the error thrown); \<open>displayNFT\<close>
  catches every error of its own body and never throws. The result is what the task does,
  in order, and how its promise settles.
\<close>

datatype task_event =
    RandomDelay
  | GetCachedTokenURI int
  | DisplayNFT int string
  | RetryDelay nat
  | ErrorAfterRetry int "string option"
  | ErrorLoading int "string option"

datatype promise_state = Fulfilled | Rejected js_error

record task_run =
  task_events :: "task_event list"
  settled :: promise_state

definition loadNFT :: "rate_limit_config \<Rightarrow> (nat \<Rightarrow> js_error + string) \<Rightarrow> int \<Rightarrow> task_run" where
  "loadNFT cfg attempt tokId =
     (case attempt 0 of
        Inr uri \<Rightarrow>
          \<lparr>task_events = [RandomDelay, GetCachedTokenURI tokId, DisplayNFT tokId uri],
           settled = Fulfilled\<rparr>
      | Inl error \<Rightarrow>
          if isThrottled error then
            (case attempt 1 of
               Inr uri \<Rightarrow>
                 \<lparr>task_events =
                    [RandomDelay, GetCachedTokenURI tokId, RetryDelay (retryDelay cfg),
                     GetCachedTokenURI tokId, DisplayNFT tokId uri],
                  settled = Fulfilled\<rparr>
             | Inl retryError \<Rightarrow>
                 \<lparr>task_events =
                    [RandomDelay, GetCachedTokenURI tokId, RetryDelay (retryDelay cfg),
                     GetCachedTokenURI tokId, ErrorAfterRetry tokId (err_message retryError)],
                  settled = Fulfilled\<rparr>)
          else
            \<lparr>task_events =
               [RandomDelay, GetCachedTokenURI tokId, ErrorLoading tokId (err_message error)],
             settled = Fulfilled\<rparr>)"

text \<open>The inner loop \<open>for (let i = batchStart; i >= batchEnd && i >= 1; i--)\<close>.\<close>

function create_batch :: "int \<Rightarrow> int \<Rightarrow> int list" where
  "create_batch i batchEnd =
     (if i \<ge> batchEnd \<and> i \<ge> 1 then i # create_batch (i - 1) batchEnd else [])"
  by pat_completeness auto
termination
  by (relation "measure (\<lambda>(i, batchEnd). nat i)") auto

declare create_batch.simps [simp del]

text \<open>
  The loop \<open>for (let i = 0; i < batchPromises.length; i += maxConcurrent)\<close>, which awaits
  \<open>Promise.allSettled\<close> of each slice. It does not end when \<open>maxConcurrent\<close> is 0 and
  there is a promise, so its result is optional.
\<close>

partial_function (option) chunk_loop ::
  "nat \<Rightarrow> 'a list \<Rightarrow> nat \<Rightarrow> 'a list list \<Rightarrow> 'a list list option" where
  "chunk_loop maxConc batchPromises i awaited =
     (if i < length batchPromises
      then chunk_loop maxConc batchPromises (i + maxConc)
             (awaited @ [array_slice batchPromises (int i) (int (i + maxConc))])
      else Some awaited)"

text \<open>
  One pass of the outer loop. \<open>batchPromises.push(loadNFT(i))\<close> calls the task at once:
  every element of \<open>batchPromises\<close> is the promise of a task that is already running,
  named here by its token index. \<open>awaited\<close> lists the slices in the order in which
  the loop waited for them, \<open>timeout\<close> is the pause after the batch.
\<close>

record batch_run =
  batchPromises :: "int list"
  task_runs :: "task_run list"
  awaited :: "int list list"
  timeout :: "nat option"

partial_function (option) batch_loop ::
  "rate_limit_config \<Rightarrow> (int \<Rightarrow> nat \<Rightarrow> js_error + string) \<Rightarrow> int \<Rightarrow> batch_run list \<Rightarrow>
     batch_run list option" where
  "batch_loop cfg attempt batchStart batches =
     (if batchStart \<ge> 1 then
        Option.bind
          (chunk_loop (maxConcurrent cfg)
             (create_batch batchStart (max 1 (batchStart - int (batchSize cfg) + 1))) 0 [])
          (\<lambda>chunks.
             batch_loop cfg attempt (batchStart - int (batchSize cfg))
               (batches @
                [\<lparr>batchPromises =
                    create_batch batchStart (max 1 (batchStart - int (batchSize cfg) + 1)),
                  task_runs =
                    map (\<lambda>i. loadNFT cfg (attempt i) i)
                      (create_batch batchStart (max 1 (batchStart - int (batchSize cfg) + 1))),
                  awaited = chunks,
                  timeout =
                    (if max 1 (batchStart - int (batchSize cfg) + 1) > 1
                     then Some (delayBetweenBatches cfg) else None)\<rparr>]))
      else Some batches)"

text \<open>\<open>loadNFTs\<close> after \<open>totalSupply\<close> has been read: nothing is fetched when it is 0.\<close>

definition loadNFTs ::
  "rate_limit_config \<Rightarrow> (int \<Rightarrow> nat \<Rightarrow> js_error + string) \<Rightarrow> nat \<Rightarrow> batch_run list option" where
  "loadNFTs cfg attempt totalSupply =
     (if totalSupply = 0 then Some [] else batch_loop cfg attempt (int totalSupply) [])"

text \<open>
  The loop's own steps in program order: the calls that start the tasks of a batch, the
  waits for the slices, the pause. A task that has been called and whose slice has not
  been waited for yet is pending from the loop's point of view; between the calls of one
  batch the loop does not give up control, so none of those tasks has settled when the
  first wait begins.
\<close>

datatype loop_event = CallLoadNFT int | AwaitAllSettled "int list" | Pause nat

definition batch_events :: "batch_run \<Rightarrow> loop_event list" where
  "batch_events b =
     map CallLoadNFT (batchPromises b) @ map AwaitAllSettled (awaited b) @
     (case timeout b of Some d \<Rightarrow> [Pause d] | None \<Rightarrow> [])"

fun pending_tasks :: "loop_event list \<Rightarrow> int list \<Rightarrow> int list" where
  "pending_tasks [] pending = pending"
| "pending_tasks (CallLoadNFT i # evs) pending = pending_tasks evs (pending @ [i])"
| "pending_tasks (AwaitAllSettled chunk # evs) pending =
     pending_tasks evs (filter (\<lambda>i. i \<notin> set chunk) pending)"
| "pending_tasks (Pause d # evs) pending = pending_tasks evs pending"

section \<open>Notions used to state the properties, and example inputs\<close>

text \<open>
  The four tests of the matching policy for a token number \<open>t\<close>, as the specification
  lists them, to compare the matcher with.
\<close>

definition any_strategy :: "nat \<Rightarrow> string \<Rightarrow> bool" where
  "any_strategy t ident \<longleftrightarrow>
     ident = decimal t
     \<or> endsWith ident (''_'' @ decimal t)
     \<or> endsWith ident (''_'' @ ''0x'' @ hexadecimal t)
     \<or> ident = ''0x'' @ hexadecimal t"

text \<open>
  Example inputs: a combined record with a given \<open>revealed\<close> flag and signature; three
  seeds with their metadata, as the two subgraphs would return them, and the combined
  record of a seed; the
  pagination state as the module creates it; twelve eligible records, token 12 first, and
  the pagination state that holds them; and the attempts of a run in which the first
  request for token 10 is throttled and every other request succeeds.
\<close>

definition example_record :: "bool \<Rightarrow> string option \<Rightarrow> combinedSeed" where
  "example_record r sig =
     \<lparr>seed_id = ''0xplantoid_7'', tokenId = ''7'', revealed = r, holder = ''0xholder'',
      revealedUri = Some ''ipfs://revealed'', revealedSignature = sig\<rparr>"

definition example_seed :: "string \<Rightarrow> bool \<Rightarrow> seed" where
  "example_seed t r =
     \<lparr>seed_id = ''0xplantoid_'' @ t, tokenId = t, revealed = r, holder = ''0xholder''\<rparr>"

definition example_metadata :: "string \<Rightarrow> string \<Rightarrow> seedMetadata" where
  "example_metadata t sig =
     \<lparr>md_id = t, md_revealedUri = Some ''ipfs://revealed'', md_revealedSignature = Some sig\<rparr>"

definition example_combined :: "string \<Rightarrow> bool \<Rightarrow> string option \<Rightarrow> combinedSeed" where
  "example_combined t r sig =
     \<lparr>seed_id = ''0xplantoid_'' @ t, tokenId = t, revealed = r, holder = ''0xholder'',
      revealedUri = Some ''ipfs://revealed'', revealedSignature = sig\<rparr>"

definition example_seeds :: "seed list" where
  "example_seeds = [example_seed ''1'' False, example_seed ''2'' True, example_seed ''3'' False]"

definition example_metadatas :: "seedMetadata list" where
  "example_metadatas =
     [example_metadata ''1'' ''0x'', example_metadata ''2'' ''0xdead'',
      example_metadata ''3'' ''0xdead'']"

definition initial_view :: unrevealed_view where
  "initial_view =
     \<lparr>UNREVEALED_PAGINATION = \<lparr>itemsPerPage = 5, currentPage = 1, totalItems = 0, data = []\<rparr>,
      unrevealedTable = \<lparr>table_rows = [], currentPageData = [], page_controls = None\<rparr>\<rparr>"

definition twelve_seeds :: "combinedSeed list" where
  "twelve_seeds =
     map (\<lambda>n. \<lparr>seed_id = ''0xplantoid_'' @ decimal n, tokenId = decimal n, revealed = False,
               holder = ''0xholder'', revealedUri = Some ''ipfs://revealed'',
               revealedSignature = Some ''0xdead''\<rparr>)
       [12, 11, 10, 9, 8, 7, 6, 5, 4, 3, 2, 1]"

definition twelve_view :: unrevealed_view where
  "twelve_view =
     \<lparr>UNREVEALED_PAGINATION =
        \<lparr>itemsPerPage = 5, currentPage = 1, totalItems = 12, data = twelve_seeds\<rparr>,
      unrevealedTable =
        displayUnrevealedTablePaginated
          \<lparr>itemsPerPage = 5, currentPage = 1, totalItems = 12, data = twelve_seeds\<rparr>\<rparr>"

text \<open>
  Storing a sequence of pointers for one contract address and token index, each under
  its own network key and at its own time.
\<close>

definition store_all ::
  "token_uri_cache \<Rightarrow> string \<Rightarrow> string \<Rightarrow> (string \<times> string \<times> nat) list \<Rightarrow> token_uri_cache" where
  "store_all cache c i stores =
     foldl (\<lambda>cache (N, uri, now). set_cache cache c i N uri now) cache stores"

text \<open>The sizes of successive batches when \<open>n\<close> indices are cut into batches of \<open>k\<close>.\<close>

definition batch_sizes :: "nat \<Rightarrow> nat \<Rightarrow> nat list" where
  "batch_sizes n k = replicate (n div k) k @ (if n mod k = 0 then [] else [n mod k])"

text \<open>The tasks that are pending when the loop begins its first wait of a batch.\<close>

fun is_call :: "loop_event \<Rightarrow> bool" where
  "is_call (CallLoadNFT i) = True"
| "is_call (AwaitAllSettled chunk) = False"
| "is_call (Pause d) = False"

definition pending_at_first_wait :: "batch_run \<Rightarrow> int list" where
  "pending_at_first_wait b = pending_tasks (takeWhile is_call (batch_events b)) []"

text \<open>
  How often a task asked for the token URI, the token an event concerns, and whether the
  first attempt failed with a throttling error.
\<close>

fun is_attempt :: "task_event \<Rightarrow> bool" where
  "is_attempt (GetCachedTokenURI i) = True"
| "is_attempt ev = False"

definition attempts_made :: "task_run \<Rightarrow> nat" where
  "attempts_made r = length (filter is_attempt (task_events r))"

fun event_token :: "task_event \<Rightarrow> int option" where
  "event_token RandomDelay = None"
| "event_token (GetCachedTokenURI i) = Some i"
| "event_token (DisplayNFT i uri) = Some i"
| "event_token (RetryDelay d) = None"
| "event_token (ErrorAfterRetry i m) = Some i"
| "event_token (ErrorLoading i m) = Some i"

definition first_throttled :: "(nat \<Rightarrow> js_error + string) \<Rightarrow> bool" where
  "first_throttled att = (case att 0 of Inl error \<Rightarrow> isThrottled error | Inr uri \<Rightarrow> False)"

definition example_attempts :: "int \<Rightarrow> nat \<Rightarrow> js_error + string" where
  "example_attempts j k =
     (if j = 10 \<and> k = 0
      then Inl \<lparr>err_code = None, err_message = Some ''429 Too Many Requests''\<rparr>
      else Inr ''ipfs://x'')"

section \<open>The cache: separation of networks, and \<open>clearNetwork\<close>\<close>

lemma map_get_map_set:
  "map_get (map_set m k v) k' = (if k' = k then Some v else map_get m k')"
  by (induction m) auto

lemma getCacheKey_network_inject:
  "getCacheKey c i n1 = getCacheKey c i n2 \<longleftrightarrow> n1 = n2"
  by (simp add: getCacheKey_def)

lemma get_cache_other_network:
  "N1 \<noteq> N2 \<Longrightarrow> get_cache (set_cache cache c i N1 uri now) c i N2 = get_cache cache c i N2"
  by (simp add: get_cache_def set_cache_def map_get_map_set getCacheKey_network_inject)

lemma get_cache_store_all:
  "\<forall>s \<in> set stores. fst s \<noteq> N2 \<Longrightarrow>
     get_cache (store_all cache c i stores) c i N2 = get_cache cache c i N2"
proof (induction stores arbitrary: cache)
  case Nil
  show ?case by (simp add: store_all_def)
next
  case (Cons s stores)
  obtain N uri now where s: "s = (N, uri, now)" by (cases s)
  with Cons.prems have ne: "N \<noteq> N2" and rest: "\<forall>s \<in> set stores. fst s \<noteq> N2" by auto
  have "store_all cache c i (s # stores) = store_all (set_cache cache c i N uri now) c i stores"
    by (simp add: store_all_def s)
  with Cons.IH[OF rest, of "set_cache cache c i N uri now"] ne show ?case
    by (simp add: get_cache_other_network)
qed

text \<open>
  C4. For distinct network keys \<open>N1\<close> and \<open>N2\<close>, any contract address and token index:
  storing a pointer under \<open>N1\<close> leaves what a lookup under \<open>N2\<close> returns as it was, and
  in a cache that holds nothing else the lookup under \<open>N2\<close> returns \<open>null\<close>. The same
  holds after any number of stores for that contract and index under network keys other
  than \<open>N2\<close>: a pointer stored under one network is never read under another.
\<close>

theorem cache_network_isolation:
  "N1 \<noteq> N2 \<Longrightarrow>
     get_cache (set_cache cache c i N1 uri now) c i N2 = get_cache cache c i N2
     \<and> get_cache (set_cache [] c i N1 uri now) c i N2 = None
     \<and> ((\<forall>s \<in> set stores. fst s \<noteq> N2) \<longrightarrow>
          get_cache (store_all cache c i stores) c i N2 = get_cache cache c i N2)"
  by (simp add: get_cache_other_network get_cache_store_all) (simp add: get_cache_def)

theorem cache_network_isolation_witness:
  "''sepolia'' \<noteq> ''mainnet''
   \<and> get_cache (set_cache (set_cache [] ''0xAb'' ''7'' ''mainnet'' ''ipfs://m'' 1)
         ''0xAb'' ''7'' ''sepolia'' ''ipfs://s'' 2) ''0xAb'' ''7'' ''mainnet'' = Some ''ipfs://m''
   \<and> get_cache (set_cache [] ''0xAb'' ''7'' ''sepolia'' ''ipfs://s'' 2) ''0xAb'' ''7'' ''mainnet'' = None
   \<and> get_cache (store_all [] ''0xAb'' ''7''
         [(''sepolia'', ''ipfs://s'', 2), (''goerli'', ''ipfs://g'', 3)]) ''0xAb'' ''7'' ''mainnet''
       = None"
proof -
  have ne: "''sepolia'' \<noteq> ''mainnet''" by simp
  have m: "get_cache (set_cache [] ''0xAb'' ''7'' ''mainnet'' ''ipfs://m'' 1) ''0xAb'' ''7'' ''mainnet''
          = Some ''ipfs://m''"
    by (simp add: get_cache_def set_cache_def)
  note inst = cache_network_isolation [OF ne,
      of "set_cache [] ''0xAb'' ''7'' ''mainnet'' ''ipfs://m'' 1" "''0xAb''" "''7''" "''ipfs://s''" 2
         "[]"]
  from inst[THEN conjunct1] m
  have t1: "get_cache (set_cache (set_cache [] ''0xAb'' ''7'' ''mainnet'' ''ipfs://m'' 1)
         ''0xAb'' ''7'' ''sepolia'' ''ipfs://s'' 2) ''0xAb'' ''7'' ''mainnet'' = Some ''ipfs://m''"
    by (simp only:)
  note t2 = inst[THEN conjunct2, THEN conjunct1]
  have others: "\<forall>s \<in> set [(''sepolia'', ''ipfs://s'', 2::nat), (''goerli'', ''ipfs://g'', 3)].
                  fst s \<noteq> ''mainnet''" by simp
  from cache_network_isolation [OF ne, of "[]" "''0xAb''" "''7''" "''ipfs://s''" 2
         "[(''sepolia'', ''ipfs://s'', 2), (''goerli'', ''ipfs://g'', 3)]",
         THEN conjunct2, THEN conjunct2, THEN mp, OF others]
  have t3: "get_cache (store_all [] ''0xAb'' ''7''
         [(''sepolia'', ''ipfs://s'', 2), (''goerli'', ''ipfs://g'', 3)]) ''0xAb'' ''7'' ''mainnet''
       = None"
    by (simp add: get_cache_def)
  from ne t1 t2 t3 show ?thesis by (intro conjI)
qed

lemma map_delete_filter:
  "distinct (map fst m) \<Longrightarrow> map_delete m k = filter (\<lambda>kv. fst kv \<noteq> k) m"
proof (induction m)
  case Nil then show ?case by simp
next
  case (Cons a m)
  obtain k' v' where a: "a = (k', v')" by (cases a)
  from Cons.prems a have nin: "k' \<notin> fst ` set m" and d: "distinct (map fst m)" by auto
  show ?case
  proof (cases "k' = k")
    case True
    with nin have "filter (\<lambda>kv. fst kv \<noteq> k) m = m" by (auto simp: filter_id_conv)
    with True a show ?thesis by simp
  next
    case False
    with a Cons.IH[OF d] show ?thesis by simp
  qed
qed

lemma distinct_map_delete:
  "distinct (map fst m) \<Longrightarrow> distinct (map fst (map_delete m k))"
  by (simp add: map_delete_filter distinct_map_filter)

lemma keys_map_set:
  "set (map fst (map_set m k v)) = insert k (set (map fst m))"
proof (induction m)
  case Nil then show ?case by simp
next
  case (Cons a m)
  obtain k' v' where a: "a = (k', v')" by (cases a)
  from Cons a show ?case by (cases "k' = k") (simp_all add: insert_commute)
qed

lemma distinct_map_set:
  "distinct (map fst m) \<Longrightarrow> distinct (map fst (map_set m k v))"
proof (induction m)
  case Nil then show ?case by simp
next
  case (Cons a m)
  obtain k' v' where a: "a = (k', v')" by (cases a)
  show ?case
  proof (cases "k' = k")
    case True with Cons.prems a show ?thesis by simp
  next
    case False
    from Cons.prems a have "k' \<notin> set (map fst m)" and d: "distinct (map fst m)" by auto
    with False have "k' \<notin> set (map fst (map_set m k v))" by (simp only: keys_map_set) simp
    with False a Cons.IH[OF d] show ?thesis by simp
  qed
qed

lemma clearNetwork_loop_eq:
  "distinct (map fst cache) \<Longrightarrow>
   clearNetwork_loop N entries cache cleared =
     (filter (\<lambda>kv. fst kv \<notin> fst ` {e \<in> set entries. network (snd e) = N}) cache,
      cleared + length (filter (\<lambda>e. network (snd e) = N) entries))"
proof (induction entries arbitrary: cache cleared)
  case Nil then show ?case by simp
next
  case (Cons e entries)
  obtain key val where e: "e = (key, val)" by (cases e)
  show ?case
  proof (cases "network val = N")
    case True
    have d: "distinct (map fst (map_delete cache key))" using Cons.prems by (rule distinct_map_delete)
    have img: "fst ` {e' \<in> set (e # entries). network (snd e') = N}
                 = insert key (fst ` {e \<in> set entries. network (snd e) = N})"
      using True e by force
    have "filter (\<lambda>kv. fst kv \<notin> fst ` {e \<in> set entries. network (snd e) = N})
            (filter (\<lambda>kv. fst kv \<noteq> key) cache)
          = filter (\<lambda>kv. fst kv \<notin> fst ` {e' \<in> set (e # entries). network (snd e') = N}) cache"
      unfolding img by (simp add: conj_commute)
    with True e Cons.IH[OF d] Cons.prems show ?thesis by (simp add: map_delete_filter)
  next
    case False
    have "{e' \<in> set (e # entries). network (snd e') = N} = {e \<in> set entries. network (snd e) = N}"
      using False e by auto
    with False e Cons.IH[OF Cons.prems] show ?thesis by simp
  qed
qed

lemma clearNetwork_loop_self:
  assumes "distinct (map fst cache)"
  shows "clearNetwork_loop N cache cache 0 =
     (filter (\<lambda>kv. network (snd kv) \<noteq> N) cache,
      length (filter (\<lambda>kv. network (snd kv) = N) cache))"
proof -
  have "fst kv \<notin> fst ` {e \<in> set cache. network (snd e) = N} \<longleftrightarrow> network (snd kv) \<noteq> N"
    if "kv \<in> set cache" for kv
  proof
    assume "fst kv \<notin> fst ` {e \<in> set cache. network (snd e) = N}"
    with that show "network (snd kv) \<noteq> N" by force
  next
    assume ne: "network (snd kv) \<noteq> N"
    show "fst kv \<notin> fst ` {e \<in> set cache. network (snd e) = N}"
    proof
      assume "fst kv \<in> fst ` {e \<in> set cache. network (snd e) = N}"
      then obtain e where e: "e \<in> set cache" "network (snd e) = N" "fst e = fst kv" by auto
      from assms e(1) that e(3) have "e = kv" by (metis eq_key_imp_eq_value prod.collapse)
      with e ne show False by simp
    qed
  qed
  then have "filter (\<lambda>kv. fst kv \<notin> fst ` {e \<in> set cache. network (snd e) = N}) cache
           = filter (\<lambda>kv. network (snd kv) \<noteq> N) cache"
    by (auto intro!: filter_cong)
  with clearNetwork_loop_eq[OF assms, of N cache 0] show ?thesis by simp
qed


lemma count_network_other:
  assumes "network_label kv \<noteq> M"
  shows "count_network f kv M = f M"
proof -
  define net where "net = network_label kv"
  with assms have ne: "net \<noteq> M" by simp
  show ?thesis
    unfolding count_network_def net_def[symmetric]
    using ne by (auto split: option.split stat_value.split)
qed

lemma count_network_cong:
  assumes "f M = g M"
  shows "count_network f kv M = count_network g kv M"
proof (cases "network_label kv = M")
  case False
  with assms show ?thesis by (simp add: count_network_other)
next
  case True
  show ?thesis
    unfolding count_network_def True
    using assms by (auto split: option.split stat_value.split)
qed

lemma foldl_count_network_filter:
  "\<lbrakk>\<forall>kv \<in> set c. \<not> P kv \<longrightarrow> network_label kv \<noteq> M; f M = g M\<rbrakk> \<Longrightarrow>
     foldl count_network f (filter P c) M = foldl count_network g c M"
proof (induction c arbitrary: f g)
  case Nil then show ?case by simp
next
  case (Cons kv c)
  show ?case
  proof (cases "P kv")
    case True
    have "count_network f kv M = count_network g kv M" using Cons.prems(2) by (rule count_network_cong)
    with True Cons.IH[of "count_network f kv" "count_network g kv"] Cons.prems(1) show ?thesis by simp
  next
    case False
    with Cons.prems(1) have "network_label kv \<noteq> M" by simp
    then have "f M = count_network g kv M" using Cons.prems(2) by (simp add: count_network_other)
    with False Cons.IH[of f "count_network g kv"] Cons.prems(1) show ?thesis by simp
  qed
qed

lemma foldl_count_network_absent:
  "\<forall>kv \<in> set c. network_label kv \<noteq> M \<Longrightarrow> foldl count_network f c M = f M"
  by (induction c arbitrary: f) (simp_all add: count_network_other)


lemma distinct_set_cache:
  "distinct (map fst cache) \<Longrightarrow> distinct (map fst (set_cache cache c i N uri now))"
  by (simp add: set_cache_def distinct_map_set)

text \<open>
  C6 (amended). For a cache whose keys are distinct (as in every \<open>Map\<close>),
  \<open>clearNetwork(N)\<close> removes exactly the entries whose stored network tag equals \<open>N\<close> and
  keeps all others in their order. The number of removed entries is written to the
  console; the call itself returns \<open>undefined\<close>. Afterwards \<open>getStats()\<close> has no
  \<open>byNetwork\<close> entry for \<open>N\<close>, unless \<open>N\<close> is \<open>"unknown"\<close> (under which entries with
  an empty tag are counted), and the \<open>byNetwork\<close> entry of every other network \<open>M\<close> is
  unchanged, unless \<open>N\<close> is the empty tag and \<open>M\<close> is \<open>"unknown"\<close>.
\<close>

theorem clearNetwork_removes_tagged:
  assumes "distinct (map fst cache)"
  shows "cache_after (clearNetwork cache N) = filter (\<lambda>kv. network (snd kv) \<noteq> N) cache
       \<and> console (clearNetwork cache N)
           = [ClearedEntries (length (filter (\<lambda>kv. network (snd kv) = N) cache)) N]
       \<and> returned (clearNetwork cache N) = Undefined
       \<and> (N \<noteq> ''unknown'' \<longrightarrow>
            byNetwork (getStats (cache_after (clearNetwork cache N))) N = None)
       \<and> (\<forall>M. M \<noteq> N \<and> (N = [] \<longrightarrow> M \<noteq> ''unknown'') \<longrightarrow>
            byNetwork (getStats (cache_after (clearNetwork cache N))) M
              = byNetwork (getStats cache) M)"
proof (intro conjI allI impI)
  show a: "cache_after (clearNetwork cache N) = filter (\<lambda>kv. network (snd kv) \<noteq> N) cache"
    by (simp add: clearNetwork_def clearNetwork_loop_self[OF assms])
  show "console (clearNetwork cache N)
           = [ClearedEntries (length (filter (\<lambda>kv. network (snd kv) = N) cache)) N]"
    by (simp add: clearNetwork_def clearNetwork_loop_self[OF assms])
  show "returned (clearNetwork cache N) = Undefined"
    by (simp add: clearNetwork_def split: prod.splits)
  show "byNetwork (getStats (cache_after (clearNetwork cache N))) N = None" if "N \<noteq> ''unknown''"
  proof -
    have "\<forall>kv \<in> set (filter (\<lambda>kv. network (snd kv) \<noteq> N) cache). network_label kv \<noteq> N"
      using that by (auto simp: network_label_def)
    then show ?thesis
      by (simp add: a getStats_def foldl_count_network_absent)
  qed
  show "byNetwork (getStats (cache_after (clearNetwork cache N))) M = byNetwork (getStats cache) M"
    if "M \<noteq> N \<and> (N = [] \<longrightarrow> M \<noteq> ''unknown'')" for M
  proof -
    have "\<forall>kv \<in> set cache. \<not> network (snd kv) \<noteq> N \<longrightarrow> network_label kv \<noteq> M"
      using that by (auto simp: network_label_def)
    then show ?thesis
      by (simp add: a getStats_def foldl_count_network_filter)
  qed
qed

theorem clearNetwork_removes_tagged_witness:
  "distinct (map fst (set_cache (set_cache [] ''0xAb'' ''7'' ''sepolia'' ''ipfs://s'' 1)
                         ''0xAb'' ''7'' ''mainnet'' ''ipfs://m'' 2))
   \<and> map (network \<circ> snd)
        (cache_after (clearNetwork
           (set_cache (set_cache [] ''0xAb'' ''7'' ''sepolia'' ''ipfs://s'' 1)
              ''0xAb'' ''7'' ''mainnet'' ''ipfs://m'' 2) ''sepolia''))
      = [''mainnet'']
   \<and> console (clearNetwork
        (set_cache (set_cache [] ''0xAb'' ''7'' ''sepolia'' ''ipfs://s'' 1)
           ''0xAb'' ''7'' ''mainnet'' ''ipfs://m'' 2) ''sepolia'')
      = [ClearedEntries 1 ''sepolia'']
   \<and> byNetwork (getStats (cache_after (clearNetwork
        (set_cache (set_cache [] ''0xAb'' ''7'' ''sepolia'' ''ipfs://s'' 1)
           ''0xAb'' ''7'' ''mainnet'' ''ipfs://m'' 2) ''sepolia''))) ''sepolia'' = None
   \<and> byNetwork (getStats (cache_after (clearNetwork
        (set_cache (set_cache [] ''0xAb'' ''7'' ''sepolia'' ''ipfs://s'' 1)
           ''0xAb'' ''7'' ''mainnet'' ''ipfs://m'' 2) ''sepolia''))) ''mainnet'' = Some (Count 1)"
proof -
  let ?c = "set_cache (set_cache [] ''0xAb'' ''7'' ''sepolia'' ''ipfs://s'' 1)
              ''0xAb'' ''7'' ''mainnet'' ''ipfs://m'' 2"
  have d: "distinct (map fst ?c)" by (simp add: distinct_set_cache)
  have c: "?c = [(''sepolia_0xab_7'',
                  \<lparr>tokenURI = ''ipfs://s'', timestamp = 1, network = ''sepolia'',
                   contractAddress = ''0xab''\<rparr>),
                 (''mainnet_0xab_7'',
                  \<lparr>tokenURI = ''ipfs://m'', timestamp = 2, network = ''mainnet'',
                   contractAddress = ''0xab''\<rparr>)]"
    by (simp add: set_cache_def getCacheKey_def toLowerCase_def toLowerCase_char_def)
  have s: "byNetwork (getStats ?c) ''mainnet'' = Some (Count 1)"
    unfolding c
    by (simp add: getStats_def count_network_def network_label_def Object_prototype_keys_def)
  note inst = clearNetwork_removes_tagged[OF d, of "''sepolia''"]
  note i1 = inst[THEN conjunct1]
  note i2 = inst[THEN conjunct2, THEN conjunct1]
  note i4 = inst[THEN conjunct2, THEN conjunct2, THEN conjunct2, THEN conjunct1]
  note i5 = inst[THEN conjunct2, THEN conjunct2, THEN conjunct2, THEN conjunct2]
  from i1 have t1: "map (network \<circ> snd) (cache_after (clearNetwork ?c ''sepolia'')) = [''mainnet'']"
    unfolding c by simp
  from i2 have t2: "console (clearNetwork ?c ''sepolia'') = [ClearedEntries 1 ''sepolia'']"
    unfolding c by simp
  have ne1: "''sepolia'' \<noteq> ''unknown''" by simp
  have t3: "byNetwork (getStats (cache_after (clearNetwork ?c ''sepolia''))) ''sepolia'' = None"
    by (rule i4[THEN mp, OF ne1])
  have ne2: "''mainnet'' \<noteq> ''sepolia'' \<and> (''sepolia'' = [] \<longrightarrow> ''mainnet'' \<noteq> ''unknown'')"
    by simp
  have "byNetwork (getStats (cache_after (clearNetwork ?c ''sepolia''))) ''mainnet''
                    = byNetwork (getStats ?c) ''mainnet''"
    by (rule i5[THEN spec, THEN mp, OF ne2])
  with s have t4: "byNetwork (getStats (cache_after (clearNetwork ?c ''sepolia''))) ''mainnet''
                    = Some (Count 1)" by (simp only:)
  from d t1 t2 t3 t4 show ?thesis by (intro conjI)
qed

text \<open>
  The claim as stated fails: \<open>clearNetwork\<close> removes one entry here and returns
  \<open>undefined\<close>, not the count 1; and after \<open>clearNetwork("unknown")\<close> the statistics still
  count, under \<open>"unknown"\<close>, an entry that was stored with the empty network tag.
\<close>

theorem clearNetwork_returns_count_counterexample:
  "length (cache_after (clearNetwork
       (set_cache [] ''0xAb'' ''7'' ''sepolia'' ''ipfs://s'' 1) ''sepolia'')) + 1
     = length (set_cache [] ''0xAb'' ''7'' ''sepolia'' ''ipfs://s'' 1)
   \<and> returned (clearNetwork (set_cache [] ''0xAb'' ''7'' ''sepolia'' ''ipfs://s'' 1) ''sepolia'')
       \<noteq> Number 1
   \<and> byNetwork (getStats (cache_after (clearNetwork
        (set_cache [] ''0xAb'' ''7'' [] ''ipfs://s'' 1) ''unknown''))) ''unknown''
       = Some (Count 1)"
  by (simp add: clearNetwork_def set_cache_def getCacheKey_def toLowerCase_def
      toLowerCase_char_def getStats_def count_network_def network_label_def
      Object_prototype_keys_def)

section \<open>The matcher\<close>

lemma endsWith_iff: "endsWith s suf \<longleftrightarrow> (\<exists>p. s = p @ suf)"
proof
  assume "endsWith s suf"
  then have "s = take (length s - length suf) s @ suf"
    by (metis append_take_drop_id endsWith_def)
  then show "\<exists>p. s = p @ suf" ..
next
  assume "\<exists>p. s = p @ suf"
  then show "endsWith s suf" by (auto simp: endsWith_def)
qed

lemma array_find_Some_iff:
  "array_find p xs = Some x \<longleftrightarrow>
     (\<exists>i < length xs. xs ! i = x \<and> p x \<and> (\<forall>j < i. \<not> p (xs ! j)))"
proof (induction xs)
  case Nil then show ?case by simp
next
  case (Cons y ys)
  show ?case
  proof (cases "p y")
    case True
    have "(\<exists>i < length (y # ys). (y # ys) ! i = x \<and> p x \<and> (\<forall>j < i. \<not> p ((y # ys) ! j))) \<longleftrightarrow> y = x"
    proof
      assume "\<exists>i < length (y # ys). (y # ys) ! i = x \<and> p x \<and> (\<forall>j < i. \<not> p ((y # ys) ! j))"
      then obtain i where i: "(y # ys) ! i = x" "\<forall>j < i. \<not> p ((y # ys) ! j)" by blast
      from i(2) True have "i = 0" by (cases i) auto
      with i(1) show "y = x" by simp
    next
      assume "y = x"
      with True show "\<exists>i < length (y # ys). (y # ys) ! i = x \<and> p x \<and> (\<forall>j < i. \<not> p ((y # ys) ! j))"
        by (intro exI[of _ 0]) simp
    qed
    with True show ?thesis by simp
  next
    case False
    have "(\<exists>i < length (y # ys). (y # ys) ! i = x \<and> p x \<and> (\<forall>j < i. \<not> p ((y # ys) ! j)))
          \<longleftrightarrow> (\<exists>i < length ys. ys ! i = x \<and> p x \<and> (\<forall>j < i. \<not> p (ys ! j)))" (is "?L \<longleftrightarrow> ?R")
    proof
      assume ?L
      then obtain i where i: "i < length (y # ys)" "(y # ys) ! i = x" "p x"
        "\<forall>j < i. \<not> p ((y # ys) ! j)" by blast
      from i(2,3) False obtain k where k: "i = Suc k" by (cases i) auto
      from i(4) k have "\<forall>j < k. \<not> p (ys ! j)" by auto
      with i k show ?R by auto
    next
      assume ?R
      then obtain i where i: "i < length ys" "ys ! i = x" "p x" "\<forall>j < i. \<not> p (ys ! j)" by blast
      have "\<forall>j < Suc i. \<not> p ((y # ys) ! j)"
        using False i(4) by (auto simp: nth_Cons split: nat.split)
      with i show ?L by (intro exI[of _ "Suc i"]) simp
    qed
    with False Cons.IH show ?thesis by simp
  qed
qed

lemma array_find_None_iff: "array_find p xs = None \<longleftrightarrow> (\<forall>x \<in> set xs. \<not> p x)"
  by (induction xs) auto

lemma digit_value_digit_char: "d < 16 \<Longrightarrow> digit_value (digit_char d) = Some d"
proof -
  assume "d < 16"
  then have "d = 0 \<or> d = 1 \<or> d = 2 \<or> d = 3 \<or> d = 4 \<or> d = 5 \<or> d = 6 \<or> d = 7 \<or> d = 8
      \<or> d = 9 \<or> d = 10 \<or> d = 11 \<or> d = 12 \<or> d = 13 \<or> d = 14 \<or> d = 15" by arith
  then show ?thesis
    by (elim disjE) (simp_all add: digit_char_def digit_value_def)
qed

lemma digit_char_decimal: "d < 10 \<Longrightarrow> of_char (digit_char d) = (48::nat) + d"
proof -
  assume "d < 10"
  then have "d = 0 \<or> d = 1 \<or> d = 2 \<or> d = 3 \<or> d = 4 \<or> d = 5 \<or> d = 6 \<or> d = 7 \<or> d = 8
      \<or> d = 9" by arith
  then show ?thesis
    by (elim disjE) (simp_all add: digit_char_def)
qed

lemma to_radix_not_Nil: "to_radix b n \<noteq> []"
  by (subst to_radix.simps) simp

lemma to_radix_small: "n < b \<Longrightarrow> to_radix b n = [digit_char n]"
  by (subst to_radix.simps) simp

lemma to_radix_large:
  "2 \<le> b \<Longrightarrow> b \<le> n \<Longrightarrow> to_radix b n = to_radix b (n div b) @ [digit_char (n mod b)]"
  by (subst to_radix.simps) simp

lemma radix_value_snoc:
  "radix_value R (z @ [c]) =
     (case digit_value c of Some d \<Rightarrow> radix_value R z * R + d | None \<Rightarrow> radix_value R z)"
  unfolding radix_value_def by (simp split: option.split)

lemma radix_value_to_radix:
  "2 \<le> b \<Longrightarrow> b \<le> 16 \<Longrightarrow> radix_value b (to_radix b n) = n"
proof (induction b n rule: to_radix.induct)
  case (1 b n)
  show ?case
  proof (cases "n < b")
    case True
    with "1.prems" have "digit_value (digit_char n) = Some n" by (simp add: digit_value_digit_char)
    with True show ?thesis by (simp add: radix_value_def to_radix_small)
  next
    case False
    with "1.prems" have nb: "\<not> (b < 2 \<or> n < b)" by simp
    have "n mod b < b" using "1.prems" by simp
    with "1.prems" have "n mod b < 16" by linarith
    then have dv: "digit_value (digit_char (n mod b)) = Some (n mod b)" by (rule digit_value_digit_char)
    from "1.IH"[OF nb "1.prems"] have "radix_value b (to_radix b (n div b)) = n div b" .
    with nb dv show ?thesis
      by (simp add: to_radix_large radix_value_snoc)
  qed
qed



lemma decimal_digits:
  "c \<in> set (to_radix 10 n) \<Longrightarrow> 48 \<le> (of_char c :: nat) \<and> (of_char c :: nat) \<le> 57"
proof (induction "10::nat" n arbitrary: c rule: to_radix.induct)
  case (1 n)
  show ?case
  proof (cases "n < 10")
    case True
    with "1.prems" have "c = digit_char n" by (simp add: to_radix_small)
    with True show ?thesis by (simp add: digit_char_decimal)
  next
    case False
    with "1.prems" have "c \<in> set (to_radix 10 (n div 10)) \<or> c = digit_char (n mod 10)"
      by (auto simp: to_radix_large)
    then show ?thesis
    proof
      assume "c \<in> set (to_radix 10 (n div 10))"
      with "1.hyps" False show ?thesis by simp
    next
      assume "c = digit_char (n mod 10)"
      moreover have "n mod 10 < 10" by simp
      ultimately show ?thesis by (simp add: digit_char_decimal)
    qed
  qed
qed

lemma parseInt_digits:
  assumes "str \<noteq> []"
    and "\<forall>c \<in> set str. 48 \<le> (of_char c :: nat) \<and> (of_char c :: nat) \<le> 57"
  shows "parseInt str = Finite (int (radix_value 10 str))"
proof -
  from assms(1) obtain c cs where str: "str = c # cs" by (cases str) auto
  have dig: "48 \<le> (of_char x :: nat) \<and> (of_char x :: nat) \<le> 57" if "x \<in> set str" for x
    using assms(2) that by blast
  have c: "48 \<le> (of_char c :: nat)" "(of_char c :: nat) \<le> 57" using dig[of c] str by auto
  have nws: "\<not> isWhiteSpace c" using c by (auto simp: isWhiteSpace_def)
  have nsign: "c \<noteq> CHR ''+''" "c \<noteq> CHR ''-''" using c by auto
  have npre: "take 2 str \<noteq> ''0x''" "take 2 str \<noteq> ''0X''"
  proof -
    show "take 2 str \<noteq> ''0x''"
    proof
      assume "take 2 str = ''0x''"
      then have "CHR ''x'' \<in> set str" by (metis in_set_takeD list.set_intros(1,2))
      from dig[OF this] show False by simp
    qed
    show "take 2 str \<noteq> ''0X''"
    proof
      assume "take 2 str = ''0X''"
      then have "CHR ''X'' \<in> set str" by (metis in_set_takeD list.set_intros(1,2))
      from dig[OF this] show False by simp
    qed
  qed
  have rd: "radix_digit 10 x" if "x \<in> set str" for x
    using dig[OF that] by (auto simp: radix_digit_def digit_value_def Let_def)
  then have tw: "takeWhile (radix_digit 10) str = str" by (simp add: takeWhile_eq_all_conv)
  have dw: "dropWhile isWhiteSpace str = str" using nws str by simp
  have h1: "(str \<noteq> [] \<and> hd str = CHR ''-'') = False" using nsign str by simp
  have h2: "(str \<noteq> [] \<and> (hd str = CHR ''+'' \<or> hd str = CHR ''-'')) = False"
    using nsign str by simp
  have h3: "(take 2 str = ''0x'' \<or> take 2 str = ''0X'') = False" using npre by simp
  show ?thesis
    unfolding parseInt_def dw Let_def h1 h2 h3 if_False tw
    using assms(1) by simp
qed

lemma parseInt_decimal: "parseInt (decimal t) = Finite (int t)"
proof -
  have "\<forall>c \<in> set (to_radix 10 t). 48 \<le> (of_char c :: nat) \<and> (of_char c :: nat) \<le> 57"
    using decimal_digits by blast
  from parseInt_digits[OF to_radix_not_Nil this] show ?thesis
    by (simp add: decimal_def radix_value_to_radix)
qed

lemma hexTokenId_decimal:
  "''0x'' @ number_toString 16 (parseInt (decimal t)) = ''0x'' @ hexadecimal t"
  by (simp add: parseInt_decimal number_toString_def hexadecimal_def)

lemma matchesSeed_decimal:
  "matchesSeed (decimal t) md \<longleftrightarrow>
     md_id md = decimal t
     \<or> endsWith (md_id md) (''_'' @ decimal t)
     \<or> endsWith (md_id md) (''_'' @ ''0x'' @ hexadecimal t)
     \<or> md_id md = ''0x'' @ hexadecimal t"
  unfolding matchesSeed_def Let_def hexTokenId_decimal by auto


text \<open>
  C1 (amended). For a primary record whose \<open>tokenId\<close> is the decimal string of a number
  \<open>t\<close> (below \<open>2^53\<close>, where \<open>parseInt\<close> is exact), the matcher returns the first
  secondary record, in the order of the list, whose id passes at least one of the four
  tests: equal to the decimal string, ending in \<open>"_"\<close> and the decimal string, ending in
  \<open>"_"\<close> and the \<open>0x\<close>-prefixed lowercase hexadecimal form, or equal to that
  hexadecimal form. The order of the four tests plays no part in which record is chosen.
  When no record passes a test there is no match.
\<close>

theorem findMetadata_first_match:
  assumes "tokenId s = decimal t" and "t < 2 ^ 53"
  shows "(findMetadata mds s = Some md \<longleftrightarrow>
            (\<exists>i < length mds. mds ! i = md \<and> any_strategy t (md_id md)
                \<and> (\<forall>j < i. \<not> any_strategy t (md_id (mds ! j)))))
         \<and> (findMetadata mds s = None \<longleftrightarrow> (\<forall>m \<in> set mds. \<not> any_strategy t (md_id m)))"
proof -
  have "matchesSeed (tokenId s) = (\<lambda>m. any_strategy t (md_id m))"
    using assms(1) by (simp add: fun_eq_iff matchesSeed_decimal any_strategy_def)
  then show ?thesis
    by (simp add: findMetadata_def array_find_Some_iff array_find_None_iff)
qed

theorem findMetadata_first_match_witness:
  "tokenId \<lparr>seed_id = ''0xplantoid_7'', tokenId = ''7'', revealed = False, holder = ''0xh''\<rparr> = decimal 7
   \<and> (7::nat) < 2 ^ 53
   \<and> findMetadata
        [\<lparr>md_id = ''0xabc_7'', md_revealedUri = Some ''ipfs://a'', md_revealedSignature = Some ''0xdead''\<rparr>,
         \<lparr>md_id = ''0x7'', md_revealedUri = Some ''ipfs://b'', md_revealedSignature = Some ''0xbeef''\<rparr>,
         \<lparr>md_id = ''7'', md_revealedUri = Some ''ipfs://c'', md_revealedSignature = Some ''0xcafe''\<rparr>]
        \<lparr>seed_id = ''0xplantoid_7'', tokenId = ''7'', revealed = False, holder = ''0xh''\<rparr>
      = Some \<lparr>md_id = ''0xabc_7'', md_revealedUri = Some ''ipfs://a'', md_revealedSignature = Some ''0xdead''\<rparr>"
proof -
  let ?s = "\<lparr>seed_id = ''0xplantoid_7'', tokenId = ''7'', revealed = False, holder = ''0xh''\<rparr>"
  let ?a = "\<lparr>md_id = ''0xabc_7'', md_revealedUri = Some ''ipfs://a'', md_revealedSignature = Some ''0xdead''\<rparr>"
  let ?mds = "[?a,
         \<lparr>md_id = ''0x7'', md_revealedUri = Some ''ipfs://b'', md_revealedSignature = Some ''0xbeef''\<rparr>,
         \<lparr>md_id = ''7'', md_revealedUri = Some ''ipfs://c'', md_revealedSignature = Some ''0xcafe''\<rparr>]"
  have d7: "decimal 7 = ''7''" by (simp add: decimal_def to_radix.simps digit_char_def)
  have h1: "tokenId ?s = decimal 7" by (simp add: d7)
  have h2: "(7::nat) < 2 ^ 53" by simp
  have "any_strategy 7 (md_id ?a)" by (simp add: any_strategy_def d7 endsWith_def)
  then have "\<exists>i < length ?mds. ?mds ! i = ?a \<and> any_strategy 7 (md_id ?a)
                \<and> (\<forall>j < i. \<not> any_strategy 7 (md_id (?mds ! j)))"
    by (intro exI[of _ 0]) simp
  with findMetadata_first_match[OF h1 h2, of ?mds ?a] have "findMetadata ?mds ?s = Some ?a" by blast
  with h1 h2 show ?thesis by blast
qed

text \<open>
  The claim as stated fails on its own example: for \<open>tokenId "7"\<close> and the secondary
  ids \<open>"0xabc_7"\<close>, \<open>"0x7"\<close>, \<open>"7"\<close>, the record matched is not the one with id \<open>"7"\<close>
  (it is the first one, as the witness above shows).
\<close>

theorem findMetadata_priority_counterexample:
  "findMetadata
     [\<lparr>md_id = ''0xabc_7'', md_revealedUri = Some ''ipfs://a'', md_revealedSignature = Some ''0xdead''\<rparr>,
      \<lparr>md_id = ''0x7'', md_revealedUri = Some ''ipfs://b'', md_revealedSignature = Some ''0xbeef''\<rparr>,
      \<lparr>md_id = ''7'', md_revealedUri = Some ''ipfs://c'', md_revealedSignature = Some ''0xcafe''\<rparr>]
     \<lparr>seed_id = ''0xplantoid_7'', tokenId = ''7'', revealed = False, holder = ''0xh''\<rparr>
   \<noteq> Some \<lparr>md_id = ''7'', md_revealedUri = Some ''ipfs://c'', md_revealedSignature = Some ''0xcafe''\<rparr>"
  by (simp add: findMetadata_def matchesSeed_def endsWith_def)

section \<open>Eligibility and order of the records to reveal\<close>

lemma select_subgraph_eq:
  "select_subgraph cs acc = acc @ filter (\<lambda>s. notRevealed s \<and> hasSignature s) cs"
  by (induction cs arbitrary: acc) simp_all

lemma select_onchain_eq:
  "select_onchain f cs acc =
     acc @ filter (\<lambda>s. notRevealed s \<and> hasSignature s
                     \<and> (case f s of Inr u \<Rightarrow> Some u \<noteq> revealedUri s | Inl e \<Rightarrow> True)) cs"
  by (induction cs arbitrary: acc) (auto split: sum.split)

lemma hasSignature_iff:
  "hasSignature s \<longleftrightarrow> (\<exists>sig. revealedSignature s = Some sig \<and> sig \<noteq> [] \<and> sig \<noteq> ''0x'')"
  by (simp add: hasSignature_def split: option.split)

lemma set_sort_insert: "set (sort_insert cmp x ys) = insert x (set ys)"
  by (induction ys) auto

lemma mset_sort_insert: "mset (sort_insert cmp x ys) = add_mset x (mset ys)"
  by (induction ys) auto

lemma mset_array_sort: "mset (array_sort cmp xs) = mset xs"
  by (induction xs) (simp_all add: array_sort_def mset_sort_insert)

lemma sorted_sort_insert:
  assumes "\<And>a b. a \<in> S \<Longrightarrow> b \<in> S \<Longrightarrow> (cmp a b \<le> 0 \<longleftrightarrow> key b \<le> key a)"
    and "x \<in> S" and "set ys \<subseteq> S"
    and "sorted_wrt (\<lambda>a b. (key b :: int) \<le> key a) ys"
  shows "sorted_wrt (\<lambda>a b. key b \<le> key a) (sort_insert cmp x ys)"
  using assms(3,4)
proof (induction ys)
  case Nil then show ?case by simp
next
  case (Cons y ys)
  from Cons.prems have y: "y \<in> S" and ys: "set ys \<subseteq> S" by auto
  show ?case
  proof (cases "cmp x y \<le> 0")
    case True
    with assms(1)[OF assms(2) y] have "key y \<le> key x" by simp
    moreover from Cons.prems(2) have "\<forall>z \<in> set ys. key z \<le> key y" by simp
    ultimately have "\<forall>z \<in> set (y # ys). key z \<le> key x" by auto
    with True Cons.prems(2) show ?thesis by simp
  next
    case False
    with assms(1)[OF assms(2) y] have "key x \<le> key y" by simp
    moreover from Cons.prems(2) have "\<forall>z \<in> set ys. key z \<le> key y" by simp
    ultimately have "\<forall>z \<in> set (sort_insert cmp x ys). key z \<le> key y"
      by (simp add: set_sort_insert)
    moreover have "sorted_wrt (\<lambda>a b. key b \<le> key a) (sort_insert cmp x ys)"
      using Cons.IH[OF ys] Cons.prems(2) by simp
    ultimately show ?thesis using False by simp
  qed
qed

lemma sorted_array_sort:
  assumes "\<And>a b. a \<in> set xs \<Longrightarrow> b \<in> set xs \<Longrightarrow> (cmp a b \<le> 0 \<longleftrightarrow> key b \<le> key a)"
  shows "sorted_wrt (\<lambda>a b. (key b :: int) \<le> key a) (array_sort cmp xs)"
proof -
  have "set zs \<subseteq> set xs \<Longrightarrow> sorted_wrt (\<lambda>a b. key b \<le> key a) (foldr (sort_insert cmp) zs [])
          \<and> set (foldr (sort_insert cmp) zs []) = set zs" for zs
  proof (induction zs)
    case Nil then show ?case by simp
  next
    case (Cons z zs)
    then have ih: "sorted_wrt (\<lambda>a b. key b \<le> key a) (foldr (sort_insert cmp) zs [])"
      and st: "set (foldr (sort_insert cmp) zs []) = set zs" and z: "z \<in> set xs"
      and sub: "set zs \<subseteq> set xs" by auto
    from sorted_sort_insert[of "set xs" cmp key z "foldr (sort_insert cmp) zs []"] assms z sub st ih
    have "sorted_wrt (\<lambda>a b. key b \<le> key a) (sort_insert cmp z (foldr (sort_insert cmp) zs []))"
      by simp
    then show ?case by (simp add: set_sort_insert st)
  qed
  from this[of xs] show ?thesis by (simp add: array_sort_def)
qed

lemma set_array_slice: "set (array_slice xs a b) \<subseteq> set xs"
proof -
  have "set (take n (drop m xs)) \<subseteq> set xs" for n m
    by (meson set_take_subset set_drop_subset subset_trans)
  then show ?thesis by (simp add: array_slice_def Let_def)
qed

lemma render_row_canReveal:
  "notRevealed s \<Longrightarrow> hasSignature s \<Longrightarrow> canReveal (render_row s)"
  by (simp add: render_row_def notRevealed_def hasSignature_def split: option.splits)

lemma display_rows_canReveal:
  assumes "\<forall>s \<in> set (data p). notRevealed s \<and> hasSignature s"
  shows "\<forall>row \<in> set (table_rows (displayUnrevealedTablePaginated p)). canReveal row"
proof -
  have "set (currentPageData (displayUnrevealedTablePaginated p)) \<subseteq> set (data p)"
    by (simp add: displayUnrevealedTablePaginated_def Let_def set_array_slice)
  moreover have "table_rows (displayUnrevealedTablePaginated p)
                   = map render_row (currentPageData (displayUnrevealedTablePaginated p))"
    by (simp add: displayUnrevealedTablePaginated_def Let_def)
  ultimately show ?thesis using assms by (auto simp: render_row_canReveal)
qed

lemma display_first_page:
  assumes "currentPage p = 1" and "totalItems p = length (data p)"
  shows "table_rows (displayUnrevealedTablePaginated p)
           = map render_row (take (itemsPerPage p) (data p))"
proof -
  have "nat (min (min (int (itemsPerPage p)) (int (length (data p)))) (int (length (data p))))
          = min (itemsPerPage p) (length (data p))" by linarith
  moreover have "\<not> min (int (itemsPerPage p)) (int (length (data p))) < 0" by linarith
  moreover have "take (min (itemsPerPage p) (length (data p))) (data p)
                   = take (itemsPerPage p) (data p)"
    by (simp add: min_def)
  ultimately have "array_slice (data p) 0 (min (int (itemsPerPage p)) (int (length (data p))))
          = take (itemsPerPage p) (data p)"
    by (simp add: array_slice_def Let_def)
  with assms show ?thesis by (simp add: displayUnrevealedTablePaginated_def Let_def)
qed

lemma loadUnrevealedNFTs_subgraph_display:
  fixes mainSeeds mds v
  defines "r \<equiv> loadUnrevealedNFTs_subgraph mainSeeds mds v"
  shows "(unrevealedSection_displayed r \<and> s \<in> set (data (UNREVEALED_PAGINATION (page_view r))))
           \<longleftrightarrow> (s \<in> set (map (combineSeed mds) mainSeeds) \<and> \<not> revealed s
                \<and> (\<exists>sig. revealedSignature s = Some sig \<and> sig \<noteq> [] \<and> sig \<noteq> ''0x''))"
    and "unrevealedSection_displayed r \<longrightarrow>
           mset (data (UNREVEALED_PAGINATION (page_view r)))
             = mset (filter (\<lambda>s. \<not> revealed s \<and> hasSignature s) (map (combineSeed mds) mainSeeds))
           \<and> totalItems (UNREVEALED_PAGINATION (page_view r))
               = length (data (UNREVEALED_PAGINATION (page_view r)))
           \<and> currentPage (UNREVEALED_PAGINATION (page_view r)) = 1
           \<and> unrevealedTable (page_view r)
               = displayUnrevealedTablePaginated (UNREVEALED_PAGINATION (page_view r))
           \<and> (\<forall>row \<in> set (table_rows (unrevealedTable (page_view r))). canReveal row)
           \<and> table_rows (unrevealedTable (page_view r))
               = map render_row (take (itemsPerPage (UNREVEALED_PAGINATION (page_view r)))
                                   (data (UNREVEALED_PAGINATION (page_view r))))"
    and "\<not> unrevealedSection_displayed r \<longrightarrow> page_view r = v"
proof -
  let ?cd = "map (combineSeed mds) mainSeeds"
  let ?sel = "select_subgraph ?cd []"
  have sel: "?sel = filter (\<lambda>s. \<not> revealed s \<and> hasSignature s) ?cd"
    by (simp add: select_subgraph_eq notRevealed_def)
  have elig: "s \<in> set ?sel \<longleftrightarrow> (s \<in> set ?cd \<and> \<not> revealed s
                \<and> (\<exists>sig. revealedSignature s = Some sig \<and> sig \<noteq> [] \<and> sig \<noteq> ''0x''))"
    unfolding sel by (simp add: hasSignature_iff)
  show "(unrevealedSection_displayed r \<and> s \<in> set (data (UNREVEALED_PAGINATION (page_view r))))
           \<longleftrightarrow> (s \<in> set (map (combineSeed mds) mainSeeds) \<and> \<not> revealed s
                \<and> (\<exists>sig. revealedSignature s = Some sig \<and> sig \<noteq> [] \<and> sig \<noteq> ''0x''))"
  proof (cases "?sel = []")
    case True
    then have "\<not> unrevealedSection_displayed r"
      by (simp add: r_def loadUnrevealedNFTs_subgraph_def Let_def)
    moreover from True have "s \<notin> set ?sel" by simp
    ultimately show ?thesis using elig by blast
  next
    case False
    then have d: "unrevealedSection_displayed r"
      and dt: "data (UNREVEALED_PAGINATION (page_view r)) = array_sort compareTokenId ?sel"
      by (simp_all add: r_def loadUnrevealedNFTs_subgraph_def Let_def)
    have "set (array_sort compareTokenId ?sel) = set ?sel"
      by (metis mset_array_sort set_mset_mset)
    with d dt elig show ?thesis by simp
  qed
  show "unrevealedSection_displayed r \<longrightarrow>
           mset (data (UNREVEALED_PAGINATION (page_view r)))
             = mset (filter (\<lambda>s. \<not> revealed s \<and> hasSignature s) (map (combineSeed mds) mainSeeds))
           \<and> totalItems (UNREVEALED_PAGINATION (page_view r))
               = length (data (UNREVEALED_PAGINATION (page_view r)))
           \<and> currentPage (UNREVEALED_PAGINATION (page_view r)) = 1
           \<and> unrevealedTable (page_view r)
               = displayUnrevealedTablePaginated (UNREVEALED_PAGINATION (page_view r))
           \<and> (\<forall>row \<in> set (table_rows (unrevealedTable (page_view r))). canReveal row)
           \<and> table_rows (unrevealedTable (page_view r))
               = map render_row (take (itemsPerPage (UNREVEALED_PAGINATION (page_view r)))
                                   (data (UNREVEALED_PAGINATION (page_view r))))"
  proof
    assume d: "unrevealedSection_displayed r"
    then have ne: "?sel \<noteq> []"
      by (auto simp: r_def loadUnrevealedNFTs_subgraph_def Let_def)
    then have dt: "data (UNREVEALED_PAGINATION (page_view r)) = array_sort compareTokenId ?sel"
      and ti: "totalItems (UNREVEALED_PAGINATION (page_view r)) = length (array_sort compareTokenId ?sel)"
      and cp: "currentPage (UNREVEALED_PAGINATION (page_view r)) = 1"
      and tb: "unrevealedTable (page_view r)
               = displayUnrevealedTablePaginated (UNREVEALED_PAGINATION (page_view r))"
      by (simp_all add: r_def loadUnrevealedNFTs_subgraph_def Let_def)
    have ms: "mset (data (UNREVEALED_PAGINATION (page_view r))) = mset ?sel"
      unfolding dt by (rule mset_array_sort)
    then have "set (data (UNREVEALED_PAGINATION (page_view r))) = set ?sel"
      by (metis set_mset_mset)
    then have "\<forall>s \<in> set (data (UNREVEALED_PAGINATION (page_view r))). notRevealed s \<and> hasSignature s"
      unfolding sel by (simp add: notRevealed_def)
    then have "\<forall>row \<in> set (table_rows (displayUnrevealedTablePaginated
                   (UNREVEALED_PAGINATION (page_view r)))). canReveal row"
      by (rule display_rows_canReveal)
    then have cr: "\<forall>row \<in> set (table_rows (unrevealedTable (page_view r))). canReveal row"
      unfolding tb .
    have fp: "table_rows (unrevealedTable (page_view r))
               = map render_row (take (itemsPerPage (UNREVEALED_PAGINATION (page_view r)))
                                   (data (UNREVEALED_PAGINATION (page_view r))))"
      unfolding tb using cp ti dt by (intro display_first_page) simp_all
    from ms ti cp tb dt cr fp show "mset (data (UNREVEALED_PAGINATION (page_view r)))
             = mset (filter (\<lambda>s. \<not> revealed s \<and> hasSignature s) (map (combineSeed mds) mainSeeds))
           \<and> totalItems (UNREVEALED_PAGINATION (page_view r))
               = length (data (UNREVEALED_PAGINATION (page_view r)))
           \<and> currentPage (UNREVEALED_PAGINATION (page_view r)) = 1
           \<and> unrevealedTable (page_view r)
               = displayUnrevealedTablePaginated (UNREVEALED_PAGINATION (page_view r))
           \<and> (\<forall>row \<in> set (table_rows (unrevealedTable (page_view r))). canReveal row)
           \<and> table_rows (unrevealedTable (page_view r))
               = map render_row (take (itemsPerPage (UNREVEALED_PAGINATION (page_view r)))
                                   (data (UNREVEALED_PAGINATION (page_view r))))"
      unfolding sel by simp
  qed
  show "\<not> unrevealedSection_displayed r \<longrightarrow> page_view r = v"
    by (simp add: r_def loadUnrevealedNFTs_subgraph_def Let_def)
qed

lemma loadUnrevealedNFTs_onchain_display:
  fixes currentUriOf mainSeeds mds v
  defines "r \<equiv> loadUnrevealedNFTs_onchain currentUriOf mainSeeds mds v"
  shows "(unrevealedSection_displayed r \<and> s \<in> set (data (UNREVEALED_PAGINATION (page_view r))))
           \<longleftrightarrow> ((s \<in> set (map (combineSeed mds) mainSeeds) \<and> \<not> revealed s
                 \<and> (\<exists>sig. revealedSignature s = Some sig \<and> sig \<noteq> [] \<and> sig \<noteq> ''0x''))
                \<and> (\<forall>u. currentUriOf s = Inr u \<longrightarrow> Some u \<noteq> revealedUri s))"
    and "unrevealedSection_displayed r \<longrightarrow>
           data (UNREVEALED_PAGINATION (page_view r))
             = filter (\<lambda>s. \<not> revealed s \<and> hasSignature s
                          \<and> (case currentUriOf s of Inr u \<Rightarrow> Some u \<noteq> revealedUri s | Inl e \<Rightarrow> True))
                 (map (combineSeed mds) mainSeeds)
           \<and> totalItems (UNREVEALED_PAGINATION (page_view r))
               = length (data (UNREVEALED_PAGINATION (page_view r)))
           \<and> currentPage (UNREVEALED_PAGINATION (page_view r)) = 1
           \<and> unrevealedTable (page_view r)
               = displayUnrevealedTablePaginated (UNREVEALED_PAGINATION (page_view r))
           \<and> (\<forall>row \<in> set (table_rows (unrevealedTable (page_view r))). canReveal row)
           \<and> table_rows (unrevealedTable (page_view r))
               = map render_row (take (itemsPerPage (UNREVEALED_PAGINATION (page_view r)))
                                   (data (UNREVEALED_PAGINATION (page_view r))))"
    and "\<not> unrevealedSection_displayed r \<longrightarrow> page_view r = v"
proof -
  let ?cd = "map (combineSeed mds) mainSeeds"
  let ?sel = "select_onchain currentUriOf ?cd []"
  have sel: "?sel = filter (\<lambda>s. \<not> revealed s \<and> hasSignature s
                          \<and> (case currentUriOf s of Inr u \<Rightarrow> Some u \<noteq> revealedUri s | Inl e \<Rightarrow> True)) ?cd"
    by (simp add: select_onchain_eq notRevealed_def)
  have elig: "s \<in> set ?sel \<longleftrightarrow> ((s \<in> set ?cd \<and> \<not> revealed s
                 \<and> (\<exists>sig. revealedSignature s = Some sig \<and> sig \<noteq> [] \<and> sig \<noteq> ''0x''))
                \<and> (\<forall>u. currentUriOf s = Inr u \<longrightarrow> Some u \<noteq> revealedUri s))"
    unfolding sel by (auto simp: hasSignature_iff split: sum.splits)
  show "(unrevealedSection_displayed r \<and> s \<in> set (data (UNREVEALED_PAGINATION (page_view r))))
           \<longleftrightarrow> ((s \<in> set (map (combineSeed mds) mainSeeds) \<and> \<not> revealed s
                 \<and> (\<exists>sig. revealedSignature s = Some sig \<and> sig \<noteq> [] \<and> sig \<noteq> ''0x''))
                \<and> (\<forall>u. currentUriOf s = Inr u \<longrightarrow> Some u \<noteq> revealedUri s))"
  proof (cases "?sel = []")
    case True
    then have "\<not> unrevealedSection_displayed r"
      by (simp add: r_def loadUnrevealedNFTs_onchain_def Let_def)
    moreover from True have "s \<notin> set ?sel" by simp
    ultimately show ?thesis using elig by blast
  next
    case False
    then have d: "unrevealedSection_displayed r"
      and dt: "data (UNREVEALED_PAGINATION (page_view r)) = ?sel"
      by (simp_all add: r_def loadUnrevealedNFTs_onchain_def Let_def)
    with elig show ?thesis by simp
  qed
  show "unrevealedSection_displayed r \<longrightarrow>
           data (UNREVEALED_PAGINATION (page_view r))
             = filter (\<lambda>s. \<not> revealed s \<and> hasSignature s
                          \<and> (case currentUriOf s of Inr u \<Rightarrow> Some u \<noteq> revealedUri s | Inl e \<Rightarrow> True))
                 (map (combineSeed mds) mainSeeds)
           \<and> totalItems (UNREVEALED_PAGINATION (page_view r))
               = length (data (UNREVEALED_PAGINATION (page_view r)))
           \<and> currentPage (UNREVEALED_PAGINATION (page_view r)) = 1
           \<and> unrevealedTable (page_view r)
               = displayUnrevealedTablePaginated (UNREVEALED_PAGINATION (page_view r))
           \<and> (\<forall>row \<in> set (table_rows (unrevealedTable (page_view r))). canReveal row)
           \<and> table_rows (unrevealedTable (page_view r))
               = map render_row (take (itemsPerPage (UNREVEALED_PAGINATION (page_view r)))
                                   (data (UNREVEALED_PAGINATION (page_view r))))"
  proof
    assume d: "unrevealedSection_displayed r"
    then have ne: "?sel \<noteq> []"
      by (auto simp: r_def loadUnrevealedNFTs_onchain_def Let_def)
    then have dt: "data (UNREVEALED_PAGINATION (page_view r)) = ?sel"
      and ti: "totalItems (UNREVEALED_PAGINATION (page_view r)) = length ?sel"
      and cp: "currentPage (UNREVEALED_PAGINATION (page_view r)) = 1"
      and tb: "unrevealedTable (page_view r)
               = displayUnrevealedTablePaginated (UNREVEALED_PAGINATION (page_view r))"
      by (simp_all add: r_def loadUnrevealedNFTs_onchain_def Let_def)
    have "\<forall>s \<in> set (data (UNREVEALED_PAGINATION (page_view r))). notRevealed s \<and> hasSignature s"
      unfolding dt sel by (simp add: notRevealed_def)
    then have "\<forall>row \<in> set (table_rows (displayUnrevealedTablePaginated
                   (UNREVEALED_PAGINATION (page_view r)))). canReveal row"
      by (rule display_rows_canReveal)
    then have cr: "\<forall>row \<in> set (table_rows (unrevealedTable (page_view r))). canReveal row"
      unfolding tb .
    have fp: "table_rows (unrevealedTable (page_view r))
               = map render_row (take (itemsPerPage (UNREVEALED_PAGINATION (page_view r)))
                                   (data (UNREVEALED_PAGINATION (page_view r))))"
      unfolding tb using cp ti dt by (intro display_first_page) simp_all
    from ti cp tb dt cr fp show "data (UNREVEALED_PAGINATION (page_view r))
             = filter (\<lambda>s. \<not> revealed s \<and> hasSignature s
                          \<and> (case currentUriOf s of Inr u \<Rightarrow> Some u \<noteq> revealedUri s | Inl e \<Rightarrow> True))
                 (map (combineSeed mds) mainSeeds)
           \<and> totalItems (UNREVEALED_PAGINATION (page_view r))
               = length (data (UNREVEALED_PAGINATION (page_view r)))
           \<and> currentPage (UNREVEALED_PAGINATION (page_view r)) = 1
           \<and> unrevealedTable (page_view r)
               = displayUnrevealedTablePaginated (UNREVEALED_PAGINATION (page_view r))
           \<and> (\<forall>row \<in> set (table_rows (unrevealedTable (page_view r))). canReveal row)
           \<and> table_rows (unrevealedTable (page_view r))
               = map render_row (take (itemsPerPage (UNREVEALED_PAGINATION (page_view r)))
                                   (data (UNREVEALED_PAGINATION (page_view r))))"
      unfolding sel by simp
  qed
  show "\<not> unrevealedSection_displayed r \<longrightarrow> page_view r = v"
    by (simp add: r_def loadUnrevealedNFTs_onchain_def Let_def)
qed

text \<open>
  C7. A combined record is in the set that is displayed for revealing (the section is
  displayed and the record is in the stored list, which the table draws page by page) if
  and only if it is one of the combined records of the load, its \<open>revealed\<close> flag is
  false, and its \<open>revealedSignature\<close> is present, non-empty and different from \<open>"0x"\<close>.
  This is the whole condition in the variant that trusts the subgraph; in the variant with
  the on-chain check it is the condition under which the check is made, and a record is
  then displayed unless the check finds the token's current URI equal to its
  \<open>revealedUri\<close>. Each selection loop selects by the same conditions. When the section is
  displayed, the stored list holds the selected records, each as often as it was selected,
  \<open>totalItems\<close> is its length, the table has one row for each of its first
  \<open>itemsPerPage\<close> records, and every drawn row can be revealed; when no record is selected the section is hidden and the pagination state and
  the table stay as they were.
\<close>

theorem reveal_eligibility:
  "(s \<in> set (select_subgraph combinedData []) \<longleftrightarrow>
      s \<in> set combinedData \<and> \<not> revealed s
      \<and> (\<exists>sig. revealedSignature s = Some sig \<and> sig \<noteq> [] \<and> sig \<noteq> ''0x''))
   \<and> (s \<in> set (select_onchain currentUriOf combinedData []) \<longleftrightarrow>
      (s \<in> set combinedData \<and> \<not> revealed s
       \<and> (\<exists>sig. revealedSignature s = Some sig \<and> sig \<noteq> [] \<and> sig \<noteq> ''0x''))
      \<and> (\<forall>u. currentUriOf s = Inr u \<longrightarrow> Some u \<noteq> revealedUri s))
   \<and> ((unrevealedSection_displayed (loadUnrevealedNFTs_subgraph mainSeeds mds v)
        \<and> s \<in> set (data (UNREVEALED_PAGINATION
                    (page_view (loadUnrevealedNFTs_subgraph mainSeeds mds v)))))
       \<longleftrightarrow> (s \<in> set (map (combineSeed mds) mainSeeds) \<and> \<not> revealed s
            \<and> (\<exists>sig. revealedSignature s = Some sig \<and> sig \<noteq> [] \<and> sig \<noteq> ''0x'')))
   \<and> (unrevealedSection_displayed (loadUnrevealedNFTs_subgraph mainSeeds mds v) \<longrightarrow>
         mset (data (UNREVEALED_PAGINATION (page_view (loadUnrevealedNFTs_subgraph mainSeeds mds v))))
           = mset (filter (\<lambda>s. \<not> revealed s \<and> hasSignature s) (map (combineSeed mds) mainSeeds))
         \<and> totalItems (UNREVEALED_PAGINATION (page_view (loadUnrevealedNFTs_subgraph mainSeeds mds v)))
             = length (data (UNREVEALED_PAGINATION
                 (page_view (loadUnrevealedNFTs_subgraph mainSeeds mds v))))
         \<and> currentPage (UNREVEALED_PAGINATION
               (page_view (loadUnrevealedNFTs_subgraph mainSeeds mds v))) = 1
         \<and> unrevealedTable (page_view (loadUnrevealedNFTs_subgraph mainSeeds mds v))
             = displayUnrevealedTablePaginated
                 (UNREVEALED_PAGINATION (page_view (loadUnrevealedNFTs_subgraph mainSeeds mds v)))
         \<and> (\<forall>row \<in> set (table_rows (unrevealedTable
                 (page_view (loadUnrevealedNFTs_subgraph mainSeeds mds v)))). canReveal row)
         \<and> table_rows (unrevealedTable (page_view (loadUnrevealedNFTs_subgraph mainSeeds mds v)))
             = map render_row
                 (take (itemsPerPage (UNREVEALED_PAGINATION
                          (page_view (loadUnrevealedNFTs_subgraph mainSeeds mds v))))
                    (data (UNREVEALED_PAGINATION
                          (page_view (loadUnrevealedNFTs_subgraph mainSeeds mds v))))))
   \<and> (\<not> unrevealedSection_displayed (loadUnrevealedNFTs_subgraph mainSeeds mds v) \<longrightarrow>
         page_view (loadUnrevealedNFTs_subgraph mainSeeds mds v) = v)
   \<and> ((unrevealedSection_displayed (loadUnrevealedNFTs_onchain currentUriOf mainSeeds mds v)
        \<and> s \<in> set (data (UNREVEALED_PAGINATION
                    (page_view (loadUnrevealedNFTs_onchain currentUriOf mainSeeds mds v)))))
       \<longleftrightarrow> ((s \<in> set (map (combineSeed mds) mainSeeds) \<and> \<not> revealed s
             \<and> (\<exists>sig. revealedSignature s = Some sig \<and> sig \<noteq> [] \<and> sig \<noteq> ''0x''))
            \<and> (\<forall>u. currentUriOf s = Inr u \<longrightarrow> Some u \<noteq> revealedUri s)))
   \<and> (unrevealedSection_displayed (loadUnrevealedNFTs_onchain currentUriOf mainSeeds mds v) \<longrightarrow>
         data (UNREVEALED_PAGINATION
            (page_view (loadUnrevealedNFTs_onchain currentUriOf mainSeeds mds v)))
           = filter (\<lambda>s. \<not> revealed s \<and> hasSignature s
                        \<and> (case currentUriOf s of Inr u \<Rightarrow> Some u \<noteq> revealedUri s
                                                | Inl e \<Rightarrow> True))
               (map (combineSeed mds) mainSeeds)
         \<and> totalItems (UNREVEALED_PAGINATION
               (page_view (loadUnrevealedNFTs_onchain currentUriOf mainSeeds mds v)))
             = length (data (UNREVEALED_PAGINATION
                 (page_view (loadUnrevealedNFTs_onchain currentUriOf mainSeeds mds v))))
         \<and> currentPage (UNREVEALED_PAGINATION
               (page_view (loadUnrevealedNFTs_onchain currentUriOf mainSeeds mds v))) = 1
         \<and> unrevealedTable (page_view (loadUnrevealedNFTs_onchain currentUriOf mainSeeds mds v))
             = displayUnrevealedTablePaginated
                 (UNREVEALED_PAGINATION
                    (page_view (loadUnrevealedNFTs_onchain currentUriOf mainSeeds mds v)))
         \<and> (\<forall>row \<in> set (table_rows (unrevealedTable
                 (page_view (loadUnrevealedNFTs_onchain currentUriOf mainSeeds mds v)))).
               canReveal row)
         \<and> table_rows (unrevealedTable
               (page_view (loadUnrevealedNFTs_onchain currentUriOf mainSeeds mds v)))
             = map render_row
                 (take (itemsPerPage (UNREVEALED_PAGINATION
                          (page_view (loadUnrevealedNFTs_onchain currentUriOf mainSeeds mds v))))
                    (data (UNREVEALED_PAGINATION
                          (page_view (loadUnrevealedNFTs_onchain currentUriOf mainSeeds mds v))))))
   \<and> (\<not> unrevealedSection_displayed (loadUnrevealedNFTs_onchain currentUriOf mainSeeds mds v) \<longrightarrow>
         page_view (loadUnrevealedNFTs_onchain currentUriOf mainSeeds mds v) = v)"
proof (intro conjI)
  show "s \<in> set (select_subgraph combinedData []) \<longleftrightarrow>
      s \<in> set combinedData \<and> \<not> revealed s
      \<and> (\<exists>sig. revealedSignature s = Some sig \<and> sig \<noteq> [] \<and> sig \<noteq> ''0x'')"
    by (auto simp: select_subgraph_eq hasSignature_iff notRevealed_def)
  show "s \<in> set (select_onchain currentUriOf combinedData []) \<longleftrightarrow>
      (s \<in> set combinedData \<and> \<not> revealed s
       \<and> (\<exists>sig. revealedSignature s = Some sig \<and> sig \<noteq> [] \<and> sig \<noteq> ''0x''))
      \<and> (\<forall>u. currentUriOf s = Inr u \<longrightarrow> Some u \<noteq> revealedUri s)"
    by (auto simp: select_onchain_eq hasSignature_iff notRevealed_def split: sum.splits)
qed (rule loadUnrevealedNFTs_subgraph_display loadUnrevealedNFTs_onchain_display)+

theorem reveal_eligibility_witness:
  "select_subgraph
     [example_record False (Some ''0x''), example_record True (Some ''0xdead''),
      example_record False (Some ''0xdead''), example_record False None]
     []
   = [example_record False (Some ''0xdead'')]
   \<and> example_record False (Some ''0xdead'')
       \<in> set (select_subgraph [example_record False (Some ''0x''), example_record True (Some ''0xdead''),
      example_record False (Some ''0xdead''), example_record False None] [])
   \<and> example_record False (Some ''0x'')
       \<notin> set (select_subgraph [example_record False (Some ''0x''), example_record True (Some ''0xdead''),
      example_record False (Some ''0xdead''), example_record False None] [])
   \<and> example_record True (Some ''0xdead'')
       \<notin> set (select_subgraph [example_record False (Some ''0x''), example_record True (Some ''0xdead''),
      example_record False (Some ''0xdead''), example_record False None] [])
   \<and> map (combineSeed example_metadatas) example_seeds
       = [example_combined ''1'' False (Some ''0x''), example_combined ''2'' True (Some ''0xdead''),
          example_combined ''3'' False (Some ''0xdead'')]
   \<and> unrevealedSection_displayed (loadUnrevealedNFTs_subgraph example_seeds example_metadatas initial_view)
   \<and> example_combined ''3'' False (Some ''0xdead'')
       \<in> set (data (UNREVEALED_PAGINATION
                 (page_view (loadUnrevealedNFTs_subgraph example_seeds example_metadatas initial_view))))
   \<and> example_combined ''1'' False (Some ''0x'')
       \<notin> set (data (UNREVEALED_PAGINATION
                 (page_view (loadUnrevealedNFTs_subgraph example_seeds example_metadatas initial_view))))
   \<and> example_combined ''2'' True (Some ''0xdead'')
       \<notin> set (data (UNREVEALED_PAGINATION
                 (page_view (loadUnrevealedNFTs_subgraph example_seeds example_metadatas initial_view))))
   \<and> map row_seed (table_rows (unrevealedTable
          (page_view (loadUnrevealedNFTs_subgraph example_seeds example_metadatas initial_view))))
       = [''3'']"
proof -
  let ?cs = "[example_record False (Some ''0x''), example_record True (Some ''0xdead''),
      example_record False (Some ''0xdead''), example_record False None]"
  let ?r = "loadUnrevealedNFTs_subgraph example_seeds example_metadatas initial_view"
  let ?d = "data (UNREVEALED_PAGINATION (page_view ?r))"
  have a: "example_record False (Some ''0xdead'') \<in> set (select_subgraph ?cs [])"
    using reveal_eligibility[of "example_record False (Some ''0xdead'')" ?cs, THEN conjunct1]
    by (simp add: example_record_def)
  have b: "example_record False (Some ''0x'') \<notin> set (select_subgraph ?cs [])"
    using reveal_eligibility[of "example_record False (Some ''0x'')" ?cs, THEN conjunct1]
    by (simp add: example_record_def)
  have c: "example_record True (Some ''0xdead'') \<notin> set (select_subgraph ?cs [])"
    using reveal_eligibility[of "example_record True (Some ''0xdead'')" ?cs, THEN conjunct1]
    by (simp add: example_record_def)
  have d: "select_subgraph ?cs [] = [example_record False (Some ''0xdead'')]"
    by (simp add: example_record_def notRevealed_def hasSignature_def)
  have cd: "map (combineSeed example_metadatas) example_seeds
       = [example_combined ''1'' False (Some ''0x''), example_combined ''2'' True (Some ''0xdead''),
          example_combined ''3'' False (Some ''0xdead'')]"
    by (simp add: example_seeds_def example_metadatas_def example_seed_def example_metadata_def
        example_combined_def combineSeed_def findMetadata_def matchesSeed_def or_null_def
        endsWith_def parseInt_def isWhiteSpace_def radix_digit_def digit_value_def
        radix_value_def number_toString_def to_radix.simps digit_char_def Let_def)
  note third = reveal_eligibility[where mainSeeds = example_seeds and mds = example_metadatas
      and v = initial_view, THEN conjunct2, THEN conjunct2, THEN conjunct1]
  have e3: "unrevealedSection_displayed ?r \<and> example_combined ''3'' False (Some ''0xdead'') \<in> set ?d"
    using third[of "example_combined ''3'' False (Some ''0xdead'')"]
    unfolding cd by (simp add: example_combined_def)
  have e1: "\<not> (unrevealedSection_displayed ?r \<and> example_combined ''1'' False (Some ''0x'') \<in> set ?d)"
    using third[of "example_combined ''1'' False (Some ''0x'')"]
    unfolding cd by (simp add: example_combined_def)
  have e2: "\<not> (unrevealedSection_displayed ?r \<and> example_combined ''2'' True (Some ''0xdead'') \<in> set ?d)"
    using third[of "example_combined ''2'' True (Some ''0xdead'')"]
    unfolding cd by (simp add: example_combined_def)
  from e3 have f0: "unrevealedSection_displayed ?r"
    and f3: "example_combined ''3'' False (Some ''0xdead'') \<in> set ?d" by simp_all
  from e1 f0 have f1: "example_combined ''1'' False (Some ''0x'') \<notin> set ?d" by simp
  from e2 f0 have f2: "example_combined ''2'' True (Some ''0xdead'') \<notin> set ?d" by simp
  have rows: "map row_seed (table_rows (unrevealedTable (page_view ?r))) = [''3'']"
    unfolding loadUnrevealedNFTs_subgraph_def cd
    by (simp add: example_combined_def notRevealed_def hasSignature_def Let_def initial_view_def
        array_sort_def displayUnrevealedTablePaginated_def array_slice_def render_row_def)
  from d a b c cd f0 f3 f1 f2 rows show ?thesis by (intro conjI)
qed

lemma compareTokenId_numeric:
  "parseInt (tokenId a) = Finite x \<Longrightarrow> parseInt (tokenId b) = Finite y \<Longrightarrow>
     (compareTokenId a b \<le> 0 \<longleftrightarrow> y \<le> x)"
  by (simp add: compareTokenId_def)

lemma combineSeed_tokenId: "tokenId (combineSeed mds s) = tokenId s"
  by (simp add: combineSeed_def Let_def)

lemma loadUnrevealedNFTs_subgraph_sorted:
  assumes "\<forall>s \<in> set mainSeeds. parseInt (tokenId s) = Finite (num (tokenId s))"
    and "select_subgraph (map (combineSeed mds) mainSeeds) [] \<noteq> []"
    and "j < k" and "k < length (data (UNREVEALED_PAGINATION (page_view (loadUnrevealedNFTs_subgraph mainSeeds mds v))))"
  shows "num (tokenId (data (UNREVEALED_PAGINATION (page_view (loadUnrevealedNFTs_subgraph mainSeeds mds v))) ! k))
       \<le> num (tokenId (data (UNREVEALED_PAGINATION (page_view (loadUnrevealedNFTs_subgraph mainSeeds mds v))) ! j))"
proof -
  let ?sel = "select_subgraph (map (combineSeed mds) mainSeeds) []"
  have d: "data (UNREVEALED_PAGINATION (page_view (loadUnrevealedNFTs_subgraph mainSeeds mds v)))
             = array_sort compareTokenId ?sel"
    using assms(2) by (simp add: loadUnrevealedNFTs_subgraph_def Let_def)
  have num: "parseInt (tokenId a) = Finite (num (tokenId a))" if "a \<in> set ?sel" for a
  proof -
    from that have "a \<in> set (map (combineSeed mds) mainSeeds)" by (auto simp: select_subgraph_eq)
    then obtain s where "s \<in> set mainSeeds" "a = combineSeed mds s" by auto
    with assms(1) show ?thesis by (simp add: combineSeed_tokenId)
  qed
  have "sorted_wrt (\<lambda>a b. num (tokenId b) \<le> num (tokenId a)) (array_sort compareTokenId ?sel)"
    by (rule sorted_array_sort) (simp add: compareTokenId_numeric[OF num num])
  with assms(3,4) show ?thesis unfolding d by (simp add: sorted_wrt_iff_nth_less)
qed

text \<open>
  C8 at a concrete input: two eligible seeds with token ids 1 and 2, in this order in the
  answer of the main subgraph. The variant with the on-chain check stores them as they
  came, lowest first; the variant that trusts the subgraph stores them highest first.
\<close>

theorem loadUnrevealedNFTs_onchain_unsorted:
  "map tokenId (data (UNREVEALED_PAGINATION (page_view
     (loadUnrevealedNFTs_onchain (\<lambda>s. Inr ''ipfs://unrevealed'')
        [\<lparr>seed_id = ''0xplantoid_1'', tokenId = ''1'', revealed = False, holder = ''0xh1''\<rparr>,
         \<lparr>seed_id = ''0xplantoid_2'', tokenId = ''2'', revealed = False, holder = ''0xh2''\<rparr>]
        [\<lparr>md_id = ''1'', md_revealedUri = Some ''ipfs://r1'', md_revealedSignature = Some ''0xdead''\<rparr>,
         \<lparr>md_id = ''2'', md_revealedUri = Some ''ipfs://r2'', md_revealedSignature = Some ''0xbeef''\<rparr>]
        initial_view))))
   = [''1'', ''2'']
   \<and> map tokenId (data (UNREVEALED_PAGINATION (page_view
     (loadUnrevealedNFTs_subgraph
        [\<lparr>seed_id = ''0xplantoid_1'', tokenId = ''1'', revealed = False, holder = ''0xh1''\<rparr>,
         \<lparr>seed_id = ''0xplantoid_2'', tokenId = ''2'', revealed = False, holder = ''0xh2''\<rparr>]
        [\<lparr>md_id = ''1'', md_revealedUri = Some ''ipfs://r1'', md_revealedSignature = Some ''0xdead''\<rparr>,
         \<lparr>md_id = ''2'', md_revealedUri = Some ''ipfs://r2'', md_revealedSignature = Some ''0xbeef''\<rparr>]
        initial_view))))
   = [''2'', ''1'']"
  by (simp add: loadUnrevealedNFTs_onchain_def loadUnrevealedNFTs_subgraph_def combineSeed_def
      findMetadata_def matchesSeed_def or_null_def notRevealed_def hasSignature_def Let_def
      initial_view_def array_sort_def compareTokenId_def parseInt_def isWhiteSpace_def
      radix_digit_def digit_value_def radix_value_def endsWith_def)

section \<open>Pages\<close>

lemma take_drop_nths:
  "take n (drop m xs) = map ((!) xs) [m ..< min (m + n) (length xs)]"
  by (rule nth_equalityI) auto

lemma array_slice_nat:
  "array_slice xs (int a) (int b) = take (min b (length xs) - min a (length xs)) (drop (min a (length xs)) xs)"
proof -
  have k: "nat (min (int a) (int (length xs))) = min a (length xs)" by linarith
  have "nat (min (int b) (int (length xs)) - min (int a) (int (length xs)))
          = min b (length xs) - min a (length xs)" by linarith
  with k show ?thesis by (simp add: array_slice_def Let_def)
qed

lemma slice_range:
  assumes "a \<le> b"
  shows "take (min b (length xs) - min a (length xs)) (drop (min a (length xs)) xs)
           = map ((!) xs) [a ..< min b (length xs)]"
proof (cases "a \<le> length xs")
  case True
  with assms have "a + (min b (length xs) - a) = min b (length xs)" by linarith
  then have "min (a + (min b (length xs) - a)) (length xs) = min b (length xs)" by simp
  moreover from True have "min a (length xs) = a" by simp
  ultimately show ?thesis by (simp only: take_drop_nths)
next
  case False
  then have "[a ..< min b (length xs)] = []" by simp
  moreover from False have "drop (min a (length xs)) xs = []" by simp
  ultimately show ?thesis by (simp only: take_Nil list.map)
qed

lemma page_slice:
  assumes "1 \<le> pg" and "n = length xs"
  shows "array_slice xs ((int pg - 1) * int ipp) (min ((int pg - 1) * int ipp + int ipp) (int n))
           = map ((!) xs) [(pg - 1) * ipp ..< min (pg * ipp) n]"
proof -
  define a where "a = (pg - 1) * ipp"
  define b where "b = pg * ipp"
  from assms(1) obtain k where pg: "pg = Suc k" by (cases pg) auto
  have ab: "a \<le> b" and ba: "b = a + ipp" by (simp_all add: a_def b_def pg)
  have s: "(int pg - 1) * int ipp = int a" by (simp add: pg a_def)
  have e: "min (int a + int ipp) (int n) = int (min b n)"
    unfolding ba by (simp only: of_nat_min of_nat_add)
  have "array_slice xs (int a) (int (min b n))
          = take (min (min b n) (length xs) - min a (length xs)) (drop (min a (length xs)) xs)"
    by (rule array_slice_nat)
  also have "min (min b n) (length xs) = min b (length xs)" using assms(2) by simp
  also have "take (min b (length xs) - min a (length xs)) (drop (min a (length xs)) xs)
               = map ((!) xs) [a ..< min b (length xs)]"
    using ab by (rule slice_range)
  finally have r: "array_slice xs (int a) (int (min b n)) = map ((!) xs) [a ..< min b (length xs)]" .
  show ?thesis unfolding s e a_def[symmetric] b_def[symmetric] using r by (simp only: assms(2))
qed

lemma Math_ceil_div_ceiling:
  assumes "0 < b"
  shows "Math_ceil_div a b = Finite \<lceil>real a / real b\<rceil>"
proof -
  let ?q = "(a + b - 1) div b"
  have n: "a + b - 1 = ?q * b + (a + b - 1) mod b" by simp
  have m: "(a + b - 1) mod b < b" using assms by simp
  from n m have lo: "a \<le> ?q * b" by linarith
  have "?q * b \<le> a + b - 1" by simp
  with assms have hi: "?q * b < a + b" by linarith
  have "real a / real b \<le> real ?q"
  proof -
    from lo have "real a \<le> real ?q * real b" by (metis of_nat_le_iff of_nat_mult)
    with assms show ?thesis by (simp add: pos_divide_le_eq)
  qed
  moreover have "real ?q - 1 < real a / real b"
  proof -
    from hi have "real ?q * real b < real a + real b" by (metis of_nat_less_iff of_nat_mult of_nat_add)
    then have "(real ?q - 1) * real b < real a" by (simp add: algebra_simps)
    with assms show ?thesis by (simp add: pos_less_divide_eq)
  qed
  ultimately have "\<lceil>real a / real b\<rceil> = int ?q"
    by (intro ceiling_unique) simp_all
  with assms show ?thesis by (simp add: Math_ceil_div_def)
qed

text \<open>
  C9. With \<open>itemsPerPage > 0\<close> and \<open>totalItems\<close> the length of the stored list:
  the number of pages is \<open>ceil(totalItems / itemsPerPage)\<close>; the table drawn for page
  \<open>pg \<ge> 1\<close> has one row for each of the records at the positions from
  \<open>(pg - 1) * itemsPerPage\<close> up to, not including, \<open>min(pg * itemsPerPage, totalItems)\<close>,
  in this order and for no other record, and it shows the page controls exactly when there
  is more than one page; \<open>changePage(newPage)\<close> makes \<open>newPage\<close> the current page and
  redraws the table for it when \<open>newPage\<close> lies between 1 and the number of pages, and
  changes nothing otherwise.
\<close>

theorem pagination_pages:
  assumes "0 < itemsPerPage (UNREVEALED_PAGINATION v)"
    and "totalItems (UNREVEALED_PAGINATION v) = length (data (UNREVEALED_PAGINATION v))"
  shows "Math_ceil_div (totalItems (UNREVEALED_PAGINATION v)) (itemsPerPage (UNREVEALED_PAGINATION v))
           = Finite \<lceil>real (totalItems (UNREVEALED_PAGINATION v)) / real (itemsPerPage (UNREVEALED_PAGINATION v))\<rceil>
       \<and> (\<forall>pg \<ge> 1.
            currentPageData (displayUnrevealedTablePaginated ((UNREVEALED_PAGINATION v)\<lparr>currentPage := int pg\<rparr>))
              = map ((!) (data (UNREVEALED_PAGINATION v)))
                  [(pg - 1) * itemsPerPage (UNREVEALED_PAGINATION v)
                     ..< min (pg * itemsPerPage (UNREVEALED_PAGINATION v)) (totalItems (UNREVEALED_PAGINATION v))]
            \<and> table_rows (displayUnrevealedTablePaginated ((UNREVEALED_PAGINATION v)\<lparr>currentPage := int pg\<rparr>))
              = map (\<lambda>k. render_row (data (UNREVEALED_PAGINATION v) ! k))
                  [(pg - 1) * itemsPerPage (UNREVEALED_PAGINATION v)
                     ..< min (pg * itemsPerPage (UNREVEALED_PAGINATION v)) (totalItems (UNREVEALED_PAGINATION v))]
            \<and> page_controls (displayUnrevealedTablePaginated ((UNREVEALED_PAGINATION v)\<lparr>currentPage := int pg\<rparr>))
              = (if 1 < \<lceil>real (totalItems (UNREVEALED_PAGINATION v)) / real (itemsPerPage (UNREVEALED_PAGINATION v))\<rceil>
                 then Some (int pg, Finite \<lceil>real (totalItems (UNREVEALED_PAGINATION v)) / real (itemsPerPage (UNREVEALED_PAGINATION v))\<rceil>)
                 else None))
       \<and> (\<forall>newPage.
            (1 \<le> newPage \<and> newPage \<le> \<lceil>real (totalItems (UNREVEALED_PAGINATION v)) / real (itemsPerPage (UNREVEALED_PAGINATION v))\<rceil>
               \<longrightarrow> currentPage (UNREVEALED_PAGINATION (changePage newPage v)) = newPage
                 \<and> unrevealedTable (changePage newPage v)
                     = displayUnrevealedTablePaginated ((UNREVEALED_PAGINATION v)\<lparr>currentPage := newPage\<rparr>)
                 \<and> table_rows (unrevealedTable (changePage newPage v))
                     = map (\<lambda>k. render_row (data (UNREVEALED_PAGINATION v) ! k))
                         [(nat newPage - 1) * itemsPerPage (UNREVEALED_PAGINATION v)
                            ..< min (nat newPage * itemsPerPage (UNREVEALED_PAGINATION v))
                                  (totalItems (UNREVEALED_PAGINATION v))])
          \<and> (\<not> (1 \<le> newPage \<and> newPage \<le> \<lceil>real (totalItems (UNREVEALED_PAGINATION v)) / real (itemsPerPage (UNREVEALED_PAGINATION v))\<rceil>)
               \<longrightarrow> changePage newPage v = v))"
proof (intro conjI allI impI)
  let ?p = "UNREVEALED_PAGINATION v"
  show tp: "Math_ceil_div (totalItems ?p) (itemsPerPage ?p)
           = Finite \<lceil>real (totalItems ?p) / real (itemsPerPage ?p)\<rceil>"
    using assms(1) by (rule Math_ceil_div_ceiling)
  have slice: "currentPageData (displayUnrevealedTablePaginated (?p\<lparr>currentPage := int pg\<rparr>))
          = map ((!) (data ?p)) [(pg - 1) * itemsPerPage ?p ..< min (pg * itemsPerPage ?p) (totalItems ?p)]"
    if "1 \<le> pg" for pg
    using page_slice[OF that assms(2), of "itemsPerPage ?p"]
    by (simp add: displayUnrevealedTablePaginated_def Let_def)
  have rows: "table_rows (displayUnrevealedTablePaginated q)
                = map render_row (currentPageData (displayUnrevealedTablePaginated q))" for q
    by (simp add: displayUnrevealedTablePaginated_def Let_def)
  have rows_pg: "table_rows (displayUnrevealedTablePaginated (?p\<lparr>currentPage := int pg\<rparr>))
          = map (\<lambda>k. render_row (data ?p ! k))
              [(pg - 1) * itemsPerPage ?p ..< min (pg * itemsPerPage ?p) (totalItems ?p)]"
    if "1 \<le> pg" for pg
    unfolding rows slice[OF that] by (simp add: comp_def)
  show "currentPageData (displayUnrevealedTablePaginated (?p\<lparr>currentPage := int pg\<rparr>))
          = map ((!) (data ?p)) [(pg - 1) * itemsPerPage ?p ..< min (pg * itemsPerPage ?p) (totalItems ?p)]"
    if "1 \<le> pg" for pg
    using that by (rule slice)
  show "table_rows (displayUnrevealedTablePaginated (?p\<lparr>currentPage := int pg\<rparr>))
          = map (\<lambda>k. render_row (data ?p ! k))
              [(pg - 1) * itemsPerPage ?p ..< min (pg * itemsPerPage ?p) (totalItems ?p)]"
    if "1 \<le> pg" for pg
    using that by (rule rows_pg)
  show "page_controls (displayUnrevealedTablePaginated (?p\<lparr>currentPage := int pg\<rparr>))
          = (if 1 < \<lceil>real (totalItems ?p) / real (itemsPerPage ?p)\<rceil>
             then Some (int pg, Finite \<lceil>real (totalItems ?p) / real (itemsPerPage ?p)\<rceil>)
             else None)"
    if "1 \<le> pg" for pg
    by (simp add: displayUnrevealedTablePaginated_def Let_def tp number_gt_def)
  fix newPage
  show "currentPage (UNREVEALED_PAGINATION (changePage newPage v)) = newPage"
    if "1 \<le> newPage \<and> newPage \<le> \<lceil>real (totalItems ?p) / real (itemsPerPage ?p)\<rceil>"
    using that by (simp add: changePage_def tp number_le_def Let_def)
  show tbl: "unrevealedTable (changePage newPage v) = displayUnrevealedTablePaginated (?p\<lparr>currentPage := newPage\<rparr>)"
    if "1 \<le> newPage \<and> newPage \<le> \<lceil>real (totalItems ?p) / real (itemsPerPage ?p)\<rceil>"
    using that by (simp add: changePage_def tp number_le_def Let_def)
  show "table_rows (unrevealedTable (changePage newPage v))
          = map (\<lambda>k. render_row (data ?p ! k))
              [(nat newPage - 1) * itemsPerPage ?p
                 ..< min (nat newPage * itemsPerPage ?p) (totalItems ?p)]"
    if v: "1 \<le> newPage \<and> newPage \<le> \<lceil>real (totalItems ?p) / real (itemsPerPage ?p)\<rceil>"
  proof -
    from v have n: "int (nat newPage) = newPage" and one: "1 \<le> nat newPage" by linarith+
    from rows_pg[OF one] show ?thesis unfolding tbl[OF v] n .
  qed
  show "changePage newPage v = v"
    if "\<not> (1 \<le> newPage \<and> newPage \<le> \<lceil>real (totalItems ?p) / real (itemsPerPage ?p)\<rceil>)"
    using that by (auto simp: changePage_def tp number_le_def Let_def)
qed

theorem pagination_pages_witness:
  "0 < itemsPerPage (UNREVEALED_PAGINATION twelve_view)
   \<and> totalItems (UNREVEALED_PAGINATION twelve_view) = length (data (UNREVEALED_PAGINATION twelve_view))
   \<and> Math_ceil_div (totalItems (UNREVEALED_PAGINATION twelve_view))
         (itemsPerPage (UNREVEALED_PAGINATION twelve_view)) = Finite 3
   \<and> map tokenId (currentPageData (displayUnrevealedTablePaginated
         ((UNREVEALED_PAGINATION twelve_view)\<lparr>currentPage := int 3\<rparr>))) = [''2'', ''1'']
   \<and> map row_seed (table_rows (displayUnrevealedTablePaginated
         ((UNREVEALED_PAGINATION twelve_view)\<lparr>currentPage := int 3\<rparr>))) = [''2'', ''1'']
   \<and> page_controls (displayUnrevealedTablePaginated
         ((UNREVEALED_PAGINATION twelve_view)\<lparr>currentPage := int 3\<rparr>)) = Some (3, Finite 3)
   \<and> changePage 0 twelve_view = twelve_view
   \<and> changePage 4 twelve_view = twelve_view
   \<and> currentPage (UNREVEALED_PAGINATION (changePage 2 twelve_view)) = 2
   \<and> map row_seed (table_rows (unrevealedTable (changePage 2 twelve_view)))
       = [''7'', ''6'', ''5'', ''4'', ''3'']"
proof -
  have h1: "0 < itemsPerPage (UNREVEALED_PAGINATION twelve_view)" by (simp add: twelve_view_def)
  have h2: "totalItems (UNREVEALED_PAGINATION twelve_view) = length (data (UNREVEALED_PAGINATION twelve_view))"
    by (simp add: twelve_view_def twelve_seeds_def)
  have c: "\<lceil>real (totalItems (UNREVEALED_PAGINATION twelve_view))
             / real (itemsPerPage (UNREVEALED_PAGINATION twelve_view))\<rceil> = 3"
    by (simp add: twelve_view_def)
  note inst = pagination_pages[OF h1 h2, unfolded c]
  note t1 = inst[THEN conjunct1]
  have three: "(1::nat) \<le> 3" by simp
  note pg3 = inst[THEN conjunct2, THEN conjunct1, rule_format, OF three]
  have r3: "[(3 - 1) * itemsPerPage (UNREVEALED_PAGINATION twelve_view)
             ..< min (3 * itemsPerPage (UNREVEALED_PAGINATION twelve_view))
                   (totalItems (UNREVEALED_PAGINATION twelve_view))] = [10, 11]"
    by (simp add: twelve_view_def upt_rec)
  have d: "data (UNREVEALED_PAGINATION twelve_view) = twelve_seeds" by (simp add: twelve_view_def)
  from pg3[THEN conjunct1]
  have t2: "map tokenId (currentPageData (displayUnrevealedTablePaginated
         ((UNREVEALED_PAGINATION twelve_view)\<lparr>currentPage := int 3\<rparr>))) = [''2'', ''1'']"
    unfolding r3 d by (simp add: twelve_seeds_def decimal_def to_radix.simps digit_char_def)
  from pg3[THEN conjunct2, THEN conjunct1]
  have t2r: "map row_seed (table_rows (displayUnrevealedTablePaginated
         ((UNREVEALED_PAGINATION twelve_view)\<lparr>currentPage := int 3\<rparr>))) = [''2'', ''1'']"
    unfolding r3 d
    by (simp add: twelve_seeds_def render_row_def decimal_def to_radix.simps digit_char_def)
  from pg3[THEN conjunct2, THEN conjunct2]
  have t2c: "page_controls (displayUnrevealedTablePaginated
         ((UNREVEALED_PAGINATION twelve_view)\<lparr>currentPage := int 3\<rparr>)) = Some (3, Finite 3)"
    by simp
  note np = inst[THEN conjunct2, THEN conjunct2, rule_format]
  have t3: "changePage 0 twelve_view = twelve_view" by (rule np[THEN conjunct2, rule_format]) simp
  have t4: "changePage 4 twelve_view = twelve_view" by (rule np[THEN conjunct2, rule_format]) simp
  have v2: "(1::int) \<le> 2 \<and> (2::int) \<le> 3" by simp
  note two = np[THEN conjunct1, rule_format, OF v2]
  note t5 = two[THEN conjunct1]
  have r2: "[(nat 2 - 1) * itemsPerPage (UNREVEALED_PAGINATION twelve_view)
             ..< min (nat 2 * itemsPerPage (UNREVEALED_PAGINATION twelve_view))
                   (totalItems (UNREVEALED_PAGINATION twelve_view))] = [5, 6, 7, 8, 9]"
    by (simp add: twelve_view_def upt_rec)
  from two[THEN conjunct2, THEN conjunct2]
  have t6: "map row_seed (table_rows (unrevealedTable (changePage 2 twelve_view)))
       = [''7'', ''6'', ''5'', ''4'', ''3'']"
    unfolding r2 d
    by (simp add: twelve_seeds_def render_row_def decimal_def to_radix.simps digit_char_def)
  from h1 h2 t1 t2 t2r t2c t3 t4 t5 t6 show ?thesis by (intro conjI)
qed

section \<open>The fetch loop: batches, pending tasks, retries\<close>

lemma create_batch_stop: "i < batchEnd \<or> i < 1 \<Longrightarrow> create_batch i batchEnd = []"
  by (subst create_batch.simps) auto

lemma create_batch_step:
  "batchEnd \<le> i \<Longrightarrow> 1 \<le> i \<Longrightarrow> create_batch i batchEnd = i # create_batch (i - 1) batchEnd"
  by (subst create_batch.simps) simp

lemma length_create_batch:
  "1 \<le> batchEnd \<Longrightarrow> length (create_batch i batchEnd) = nat (i - batchEnd + 1)"
proof (induction i batchEnd rule: create_batch.induct)
  case (1 i batchEnd)
  show ?case
  proof (cases "batchEnd \<le> i")
    case True
    with "1.prems" have i: "1 \<le> i" by simp
    from "1.IH" True i "1.prems" have "length (create_batch (i - 1) batchEnd) = nat (i - 1 - batchEnd + 1)"
      by simp
    with True i show ?thesis by (simp add: create_batch_step)
  next
    case False
    then show ?thesis by (simp add: create_batch_stop)
  qed
qed

lemma create_batch_split:
  "1 \<le> batchEnd \<Longrightarrow> batchEnd \<le> i + 1 \<Longrightarrow>
     create_batch i batchEnd @ create_batch (batchEnd - 1) 1 = create_batch i 1"
proof (induction i batchEnd rule: create_batch.induct)
  case (1 i batchEnd)
  show ?case
  proof (cases "batchEnd \<le> i")
    case True
    with "1.prems" have i: "1 \<le> i" by simp
    from "1.IH" True i "1.prems"
    have "create_batch (i - 1) batchEnd @ create_batch (batchEnd - 1) 1 = create_batch (i - 1) 1"
      by simp
    with True i show ?thesis by (simp add: create_batch_step)
  next
    case False
    with "1.prems" have "i = batchEnd - 1" by simp
    with False show ?thesis by (simp add: create_batch_stop)
  qed
qed

lemma create_batch_descending: "create_batch (int n) 1 = rev (map int [1..<Suc n])"
proof (induction n)
  case 0
  show ?case by (simp add: create_batch_stop)
next
  case (Suc n)
  have "create_batch (int (Suc n)) 1 = int (Suc n) # create_batch (int (Suc n) - 1) 1"
    by (rule create_batch_step) simp_all
  with Suc show ?case by simp
qed

lemma array_slice_take_drop:
  "array_slice xs (int i) (int (i + m)) = take m (drop i xs)"
proof (cases "i \<le> length xs")
  case False
  then show ?thesis unfolding array_slice_nat by simp
next
  case True
  then have a: "min i (length xs) = i" by simp
  show ?thesis
  proof (cases "i + m \<le> length xs")
    case True
    then have "min (i + m) (length xs) - i = m" by simp
    then show ?thesis unfolding array_slice_nat a by simp
  next
    case False
    then have "min (i + m) (length xs) - i = length xs - i" by simp
    moreover from False have "length (drop i xs) \<le> m" by simp
    ultimately show ?thesis unfolding array_slice_nat a by simp
  qed
qed

lemma chunk_loop_result:
  assumes "0 < m"
  shows "\<exists>cs. chunk_loop m ps i acc = Some (acc @ cs) \<and> concat cs = drop i ps
            \<and> (\<forall>c \<in> set cs. c \<noteq> [] \<and> length c \<le> m)"
proof (induction "length ps - i" arbitrary: i acc rule: less_induct)
  case less
  show ?case
  proof (cases "i < length ps")
    case False
    then show ?thesis by (subst chunk_loop.simps) simp
  next
    case True
    let ?c = "array_slice ps (int i) (int (i + m))"
    have c: "?c = take m (drop i ps)" by (rule array_slice_take_drop)
    from True assms have "length ps - (i + m) < length ps - i" by simp
    from less[OF this, of "acc @ [?c]"] obtain cs where
      cs: "chunk_loop m ps (i + m) (acc @ [?c]) = Some ((acc @ [?c]) @ cs)"
          "concat cs = drop (i + m) ps" "\<forall>c \<in> set cs. c \<noteq> [] \<and> length c \<le> m" by blast
    have "chunk_loop m ps i acc = Some (acc @ (?c # cs))"
      using True cs(1) by (subst chunk_loop.simps) simp
    moreover have "concat (?c # cs) = drop i ps"
    proof -
      have "drop (i + m) ps = drop m (drop i ps)" by (simp add: add.commute)
      with cs(2) have "concat (?c # cs) = take m (drop i ps) @ drop m (drop i ps)"
        by (simp only: concat.simps c)
      then show ?thesis by (simp only: append_take_drop_id)
    qed
    moreover have "?c \<noteq> [] \<and> length ?c \<le> m" unfolding c using True assms by simp
    ultimately show ?thesis using cs(3) by (intro exI[of _ "?c # cs"]) simp
  qed
qed


lemma batch_sizes_step: "0 < k \<Longrightarrow> k \<le> n \<Longrightarrow> batch_sizes n k = k # batch_sizes (n - k) k"
  by (simp add: batch_sizes_def le_div_geq le_mod_geq)

lemma batch_sizes_last: "0 < n \<Longrightarrow> n < k \<Longrightarrow> batch_sizes n k = [n]"
  by (simp add: batch_sizes_def)

lemma batch_loop_result:
  assumes "0 < batchSize cfg" and "0 < maxConcurrent cfg"
  shows "\<exists>bs. batch_loop cfg att start acc = Some (acc @ bs)
       \<and> concat (map batchPromises bs) = create_batch start 1
       \<and> map (length \<circ> batchPromises) bs = batch_sizes (nat start) (batchSize cfg)
       \<and> (\<forall>b \<in> set bs.
             task_runs b = map (\<lambda>i. loadNFT cfg (att i) i) (batchPromises b)
             \<and> concat (awaited b) = batchPromises b
             \<and> (\<forall>c \<in> set (awaited b). c \<noteq> [] \<and> length c \<le> maxConcurrent cfg))"
proof (induction "nat start" arbitrary: start acc rule: less_induct)
  case less
  let ?k = "batchSize cfg"
  show ?case
  proof (cases "1 \<le> start")
    case False
    then have "batch_loop cfg att start acc = Some (acc @ [])"
      by (subst batch_loop.simps) simp
    moreover from False have "create_batch start 1 = []" by (simp add: create_batch_stop)
    moreover from False have "batch_sizes (nat start) ?k = []" by (simp add: batch_sizes_def)
    ultimately show ?thesis by (intro exI[of _ "[]"]) simp
  next
    case True
    let ?e = "max 1 (start - int ?k + 1)"
    let ?ids = "create_batch start ?e"
    from chunk_loop_result[OF assms(2), of ?ids 0 "[]"] obtain chunks where
      ch: "chunk_loop (maxConcurrent cfg) ?ids 0 [] = Some chunks" "concat chunks = ?ids"
          "\<forall>c \<in> set chunks. c \<noteq> [] \<and> length c \<le> maxConcurrent cfg" by auto
    let ?b = "\<lparr>batchPromises = ?ids, task_runs = map (\<lambda>i. loadNFT cfg (att i) i) ?ids,
               awaited = chunks,
               timeout = (if ?e > 1 then Some (delayBetweenBatches cfg) else None)\<rparr>"
    from True assms(1) have "nat (start - int ?k) < nat start" by simp
    from less[OF this, of "acc @ [?b]"] obtain bs where
      bs: "batch_loop cfg att (start - int ?k) (acc @ [?b]) = Some ((acc @ [?b]) @ bs)"
          "concat (map batchPromises bs) = create_batch (start - int ?k) 1"
          "map (length \<circ> batchPromises) bs = batch_sizes (nat (start - int ?k)) ?k"
          "\<forall>b \<in> set bs.
             task_runs b = map (\<lambda>i. loadNFT cfg (att i) i) (batchPromises b)
             \<and> concat (awaited b) = batchPromises b
             \<and> (\<forall>c \<in> set (awaited b). c \<noteq> [] \<and> length c \<le> maxConcurrent cfg)"
      by blast
    have run: "batch_loop cfg att start acc = Some (acc @ (?b # bs))"
      using True ch(1) bs(1) by (subst batch_loop.simps) simp
    have rest: "create_batch (start - int ?k) 1 = create_batch (?e - 1) 1"
    proof (cases "1 \<le> start - int ?k + 1")
      case True
      then show ?thesis by (simp add: max_def)
    next
      case False
      then show ?thesis by (simp add: max_def create_batch_stop)
    qed
    have "?ids @ create_batch (?e - 1) 1 = create_batch start 1"
      using True assms(1) by (intro create_batch_split) simp_all
    with bs(2) rest have cat: "concat (map batchPromises (?b # bs)) = create_batch start 1" by simp
    have len: "length ?ids = nat (start - ?e + 1)" by (rule length_create_batch) simp
    have sz: "map (length \<circ> batchPromises) (?b # bs) = batch_sizes (nat start) ?k"
    proof (cases "int ?k \<le> start")
      case True
      then have "length ?ids = ?k" unfolding len by (simp add: max_def)
      moreover from True have "nat (start - int ?k) = nat start - ?k" by simp
      moreover from True assms(1) have "batch_sizes (nat start) ?k = ?k # batch_sizes (nat start - ?k) ?k"
        by (intro batch_sizes_step) simp_all
      ultimately show ?thesis using bs(3) by simp
    next
      case False
      with True have "length ?ids = nat start" unfolding len by (simp add: max_def)
      moreover from False have "batch_sizes (nat (start - int ?k)) ?k = []"
        by (simp add: batch_sizes_def)
      moreover from False True have "batch_sizes (nat start) ?k = [nat start]"
        by (intro batch_sizes_last) simp_all
      ultimately show ?thesis using bs(3) by simp
    qed
    from ch bs(4) have each: "\<forall>b \<in> set (?b # bs).
             task_runs b = map (\<lambda>i. loadNFT cfg (att i) i) (batchPromises b)
             \<and> concat (awaited b) = batchPromises b
             \<and> (\<forall>c \<in> set (awaited b). c \<noteq> [] \<and> length c \<le> maxConcurrent cfg)"
      by simp
    from run cat sz each show ?thesis by blast
  qed
qed

text \<open>
  C5. For every \<open>totalSupply N \<ge> 1\<close> (and a configuration with positive \<open>batchSize\<close> and
  \<open>maxConcurrent\<close>, without which the loop does not end) the fetch loop ends, and the
  batches it issues, one after the other, make up the indices \<open>N, N - 1, ..., 1\<close> in this
  order: descending, highest first, each batch continuing where the one before stopped.
  Every batch has \<open>batchSize\<close> indices, except that a last batch holds the remainder when
  \<open>batchSize\<close> does not divide \<open>N\<close>.
\<close>

theorem loadNFTs_batches:
  assumes "0 < batchSize cfg" and "0 < maxConcurrent cfg" and "1 \<le> N"
  shows "map_option (\<lambda>bs. concat (map batchPromises bs)) (loadNFTs cfg attempts N)
           = Some (rev (map int [1..<Suc N]))
       \<and> map_option (map (length \<circ> batchPromises)) (loadNFTs cfg attempts N)
           = Some (replicate (N div batchSize cfg) (batchSize cfg)
                   @ (if N mod batchSize cfg = 0 then [] else [N mod batchSize cfg]))"
proof -
  from batch_loop_result[OF assms(1,2), of attempts "int N" "[]"] obtain bs where
    bs: "batch_loop cfg attempts (int N) [] = Some bs"
        "concat (map batchPromises bs) = create_batch (int N) 1"
        "map (length \<circ> batchPromises) bs = batch_sizes N (batchSize cfg)" by auto
  from assms(3) bs(1) have "loadNFTs cfg attempts N = Some bs" by (simp add: loadNFTs_def)
  with bs(2,3) show ?thesis by (simp add: create_batch_descending batch_sizes_def)
qed


lemma chunk_loop_step:
  "i < length ps \<Longrightarrow>
     chunk_loop m ps i acc = chunk_loop m ps (i + m) (acc @ [array_slice ps (int i) (int (i + m))])"
  by (subst chunk_loop.simps) simp

lemma chunk_loop_stop: "\<not> i < length ps \<Longrightarrow> chunk_loop m ps i acc = Some acc"
  by (subst chunk_loop.simps) simp

lemma batch_loop_step:
  "1 \<le> start \<Longrightarrow>
     batch_loop cfg att start acc =
       Option.bind
          (chunk_loop (maxConcurrent cfg)
             (create_batch start (max 1 (start - int (batchSize cfg) + 1))) 0 [])
          (\<lambda>chunks.
             batch_loop cfg att (start - int (batchSize cfg))
               (acc @
                [\<lparr>batchPromises =
                    create_batch start (max 1 (start - int (batchSize cfg) + 1)),
                  task_runs =
                    map (\<lambda>i. loadNFT cfg (att i) i)
                      (create_batch start (max 1 (start - int (batchSize cfg) + 1))),
                  awaited = chunks,
                  timeout =
                    (if max 1 (start - int (batchSize cfg) + 1) > 1
                     then Some (delayBetweenBatches cfg) else None)\<rparr>]))"
  by (subst batch_loop.simps) simp

lemma batch_loop_stop: "\<not> 1 \<le> start \<Longrightarrow> batch_loop cfg att start acc = Some acc"
  by (subst batch_loop.simps) simp

lemmas run_simps =
  loadNFTs_def RATE_LIMIT_CONFIG_def batch_loop_step batch_loop_stop chunk_loop_step
  chunk_loop_stop create_batch_step create_batch_stop array_slice_def Let_def


theorem loadNFTs_batches_witness:
  "0 < batchSize RATE_LIMIT_CONFIG \<and> 0 < maxConcurrent RATE_LIMIT_CONFIG \<and> (1::nat) \<le> 12
   \<and> map_option (\<lambda>bs. concat (map batchPromises bs))
         (loadNFTs RATE_LIMIT_CONFIG example_attempts 12)
       = Some [12, 11, 10, 9, 8, 7, 6, 5, 4, 3, 2, 1]
   \<and> map_option (map (length \<circ> batchPromises)) (loadNFTs RATE_LIMIT_CONFIG example_attempts 12)
       = Some [5, 5, 2]
   \<and> map_option (map batchPromises) (loadNFTs RATE_LIMIT_CONFIG example_attempts 12)
       = Some [ [12, 11, 10, 9, 8], [7, 6, 5, 4, 3], [2, 1] ]"
proof -
  have h1: "0 < batchSize RATE_LIMIT_CONFIG" by (simp add: RATE_LIMIT_CONFIG_def)
  have h2: "0 < maxConcurrent RATE_LIMIT_CONFIG" by (simp add: RATE_LIMIT_CONFIG_def)
  have h3: "(1::nat) \<le> 12" by simp
  note inst = loadNFTs_batches[OF h1 h2 h3, of example_attempts]
  have r: "rev (map int [1..<Suc 12]) = [12, 11, 10, 9, 8, 7, 6, 5, 4, 3, 2, 1]"
    by (simp add: upt_rec)
  have z: "replicate (12 div batchSize RATE_LIMIT_CONFIG) (batchSize RATE_LIMIT_CONFIG)
            @ (if 12 mod batchSize RATE_LIMIT_CONFIG = 0 then []
               else [12 mod batchSize RATE_LIMIT_CONFIG]) = [5, 5, 2]"
    by (simp add: RATE_LIMIT_CONFIG_def numeral_2_eq_2)
  from inst[THEN conjunct1] have t1: "map_option (\<lambda>bs. concat (map batchPromises bs))
         (loadNFTs RATE_LIMIT_CONFIG example_attempts 12)
       = Some [12, 11, 10, 9, 8, 7, 6, 5, 4, 3, 2, 1]" unfolding r .
  from inst[THEN conjunct2] have t2: "map_option (map (length \<circ> batchPromises))
         (loadNFTs RATE_LIMIT_CONFIG example_attempts 12) = Some [5, 5, 2]" unfolding z .
  have t3: "map_option (map batchPromises) (loadNFTs RATE_LIMIT_CONFIG example_attempts 12)
       = Some [ [12, 11, 10, 9, 8], [7, 6, 5, 4, 3], [2, 1] ]"
    by (simp add: run_simps)
  from h1 h2 h3 t1 t2 t3 show ?thesis by (intro conjI)
qed


lemma pending_tasks_calls: "pending_tasks (map CallLoadNFT ids) pending = pending @ ids"
  by (induction ids arbitrary: pending) simp_all

lemma takeWhile_calls:
  "takeWhile is_call (map CallLoadNFT ids @ map AwaitAllSettled chunks @ rest)
     = map CallLoadNFT ids @ takeWhile is_call (map AwaitAllSettled chunks @ rest)"
  by (induction ids) simp_all

lemma pending_at_first_wait_batch:
  "pending_at_first_wait b = batchPromises b"
proof -
  have "takeWhile is_call (map AwaitAllSettled (awaited b)
          @ (case timeout b of Some d \<Rightarrow> [Pause d] | None \<Rightarrow> [])) = []"
    by (cases "awaited b") (simp_all split: option.split)
  then show ?thesis
    by (simp add: pending_at_first_wait_def batch_events_def takeWhile_calls pending_tasks_calls)
qed

text \<open>
  C2 at the shipped configuration (\<open>batchSize = 5\<close>, \<open>maxConcurrent = 3\<close>) and
  \<open>totalSupply = 12\<close>: when the loop begins to wait for the first slice of a batch, all
  tasks of that batch have been called and none has been waited for, five in the first two
  batches, although the slices waited for hold at most three.
\<close>

theorem loadNFTs_whole_batch_pending:
  "map_option (map pending_at_first_wait) (loadNFTs RATE_LIMIT_CONFIG example_attempts 12)
     = Some [ [12, 11, 10, 9, 8], [7, 6, 5, 4, 3], [2, 1] ]
   \<and> map_option (map awaited) (loadNFTs RATE_LIMIT_CONFIG example_attempts 12)
     = Some [ [ [12, 11, 10], [9, 8] ], [ [7, 6, 5], [4, 3] ], [ [2, 1] ] ]
   \<and> maxConcurrent RATE_LIMIT_CONFIG = 3"
  by (simp add: run_simps pending_at_first_wait_batch)


lemma string_includes_iff: "string_includes s sub \<longleftrightarrow> (\<exists>p q. s = p @ sub @ q)"
proof (induction s)
  case Nil
  show ?case by auto
next
  case (Cons c s)
  have "take (length sub) (c # s) = sub \<longleftrightarrow> (\<exists>q. c # s = sub @ q)"
    by (metis append_eq_conv_conj append_take_drop_id)
  moreover have "(\<exists>p q. c # s = p @ sub @ q) \<longleftrightarrow> (\<exists>q. c # s = sub @ q) \<or> (\<exists>p q. s = p @ sub @ q)"
  proof
    assume "\<exists>p q. c # s = p @ sub @ q"
    then obtain p q where pq: "c # s = p @ sub @ q" by blast
    show "(\<exists>q. c # s = sub @ q) \<or> (\<exists>p q. s = p @ sub @ q)"
    proof (cases p)
      case Nil with pq show ?thesis by auto
    next
      case (Cons a p') with pq show ?thesis by auto
    qed
  next
    assume "(\<exists>q. c # s = sub @ q) \<or> (\<exists>p q. s = p @ sub @ q)"
    then show "\<exists>p q. c # s = p @ sub @ q"
    proof
      assume "\<exists>q. c # s = sub @ q"
      then show ?thesis by (metis append_Nil)
    next
      assume "\<exists>p q. s = p @ sub @ q"
      then obtain p q where "s = p @ sub @ q" by blast
      then have "c # s = (c # p) @ sub @ q" by simp
      then show ?thesis by blast
    qed
  qed
  ultimately show ?case using Cons.IH by simp
qed

lemma isThrottled_iff:
  "isThrottled e \<longleftrightarrow>
     err_code e = Some ''BAD_DATA''
     \<or> (\<exists>m p q. err_message e = Some m \<and> m = p @ ''Too Many Requests'' @ q)
     \<or> (\<exists>m p q. err_message e = Some m \<and> m = p @ ''429'' @ q)"
  unfolding isThrottled_def string_includes_iff by (auto split: option.splits)

lemma loadNFT_settled: "settled (loadNFT cfg att i) = Fulfilled"
  by (simp add: loadNFT_def split: sum.split)

lemma loadNFT_attempts: "attempts_made (loadNFT cfg att i) = (if first_throttled att then 2 else 1)"
  by (simp add: loadNFT_def attempts_made_def first_throttled_def split: sum.split)

lemma loadNFT_own_events:
  "ev \<in> set (task_events (loadNFT cfg att i)) \<Longrightarrow> event_token ev = None \<or> event_token ev = Some i"
  by (auto simp: loadNFT_def split: sum.splits if_splits)

lemma loadNFT_retry_events:
  "first_throttled att \<Longrightarrow>
     task_events (loadNFT cfg att i) =
       [RandomDelay, GetCachedTokenURI i, RetryDelay (retryDelay cfg), GetCachedTokenURI i,
        (case att 1 of Inr uri \<Rightarrow> DisplayNFT i uri
                     | Inl retryError \<Rightarrow> ErrorAfterRetry i (err_message retryError))]"
  by (auto simp: loadNFT_def first_throttled_def split: sum.splits)

lemma loadNFT_no_retry_events:
  "att 0 = Inl e \<Longrightarrow> \<not> isThrottled e \<Longrightarrow>
     task_events (loadNFT cfg att i) = [RandomDelay, GetCachedTokenURI i, ErrorLoading i (err_message e)]"
  by (simp add: loadNFT_def)

lemma loadNFTs_task_runs:
  assumes "0 < batchSize cfg" and "0 < maxConcurrent cfg"
  shows "loadNFTs cfg attempts N \<noteq> None
       \<and> map_option (map task_runs) (loadNFTs cfg attempts N)
           = map_option (map (\<lambda>b. map (\<lambda>j. loadNFT cfg (attempts j) j) (batchPromises b)))
               (loadNFTs cfg attempts N)"
proof (cases "N = 0")
  case True
  then show ?thesis by (simp add: loadNFTs_def)
next
  case False
  from batch_loop_result[OF assms, of attempts "int N" "[]"] obtain bs where
    bs: "batch_loop cfg attempts (int N) [] = Some bs"
        "\<forall>b \<in> set bs. task_runs b = map (\<lambda>j. loadNFT cfg (attempts j) j) (batchPromises b)"
    by auto
  from False bs(1) have "loadNFTs cfg attempts N = Some bs" by (simp add: loadNFTs_def)
  with bs(2) show ?thesis by simp
qed

text \<open>
  C3. A task always settles as fulfilled, whatever its attempts return, and all of its
  steps concern its own token. It asks for the token URI twice exactly when the first
  attempt failed with a throttling error (code \<open>BAD_DATA\<close>, or a message containing
  \<open>Too Many Requests\<close> or \<open>429\<close>), and then it waits \<open>retryDelay\<close> between the two
  attempts and either displays the token or logs the failure of the retry; after any
  other failure it logs the error and does nothing more. The fetch loop ends for every
  outcome of the attempts, and the run of each task in a batch is the run determined by
  the attempts of its own token alone.
\<close>

theorem loadNFT_retry_once:
  "settled (loadNFT cfg att i) = Fulfilled
   \<and> attempts_made (loadNFT cfg att i) = (if first_throttled att then 2 else 1)
   \<and> (\<forall>ev \<in> set (task_events (loadNFT cfg att i)). event_token ev = None \<or> event_token ev = Some i)
   \<and> (first_throttled att \<longrightarrow>
        task_events (loadNFT cfg att i) =
          [RandomDelay, GetCachedTokenURI i, RetryDelay (retryDelay cfg), GetCachedTokenURI i,
           (case att 1 of Inr uri \<Rightarrow> DisplayNFT i uri
                        | Inl retryError \<Rightarrow> ErrorAfterRetry i (err_message retryError))])
   \<and> (\<forall>e. att 0 = Inl e \<and> \<not> isThrottled e \<longrightarrow>
        task_events (loadNFT cfg att i)
          = [RandomDelay, GetCachedTokenURI i, ErrorLoading i (err_message e)])
   \<and> (\<forall>e. isThrottled e \<longleftrightarrow>
          err_code e = Some ''BAD_DATA''
          \<or> (\<exists>m p q. err_message e = Some m \<and> m = p @ ''Too Many Requests'' @ q)
          \<or> (\<exists>m p q. err_message e = Some m \<and> m = p @ ''429'' @ q))
   \<and> (0 < batchSize cfg \<and> 0 < maxConcurrent cfg \<longrightarrow>
        loadNFTs cfg attempts N \<noteq> None
        \<and> map_option (map task_runs) (loadNFTs cfg attempts N)
            = map_option (map (\<lambda>b. map (\<lambda>j. loadNFT cfg (attempts j) j) (batchPromises b)))
                (loadNFTs cfg attempts N))"
proof -
  have 1: "settled (loadNFT cfg att i) = Fulfilled" by (rule loadNFT_settled)
  have 2: "attempts_made (loadNFT cfg att i) = (if first_throttled att then 2 else 1)"
    by (rule loadNFT_attempts)
  have 3: "\<forall>ev \<in> set (task_events (loadNFT cfg att i)). event_token ev = None \<or> event_token ev = Some i"
    by (intro ballI) (rule loadNFT_own_events)
  have 4: "first_throttled att \<longrightarrow>
        task_events (loadNFT cfg att i) =
          [RandomDelay, GetCachedTokenURI i, RetryDelay (retryDelay cfg), GetCachedTokenURI i,
           (case att 1 of Inr uri \<Rightarrow> DisplayNFT i uri
                        | Inl retryError \<Rightarrow> ErrorAfterRetry i (err_message retryError))]"
    by (intro impI) (rule loadNFT_retry_events)
  have 5: "\<forall>e. att 0 = Inl e \<and> \<not> isThrottled e \<longrightarrow>
        task_events (loadNFT cfg att i)
          = [RandomDelay, GetCachedTokenURI i, ErrorLoading i (err_message e)]"
  proof (intro allI impI, elim conjE)
    fix e assume "att 0 = Inl e" "\<not> isThrottled e"
    then show "task_events (loadNFT cfg att i)
          = [RandomDelay, GetCachedTokenURI i, ErrorLoading i (err_message e)]"
      by (rule loadNFT_no_retry_events)
  qed
  have 6: "\<forall>e. isThrottled e \<longleftrightarrow>
          err_code e = Some ''BAD_DATA''
          \<or> (\<exists>m p q. err_message e = Some m \<and> m = p @ ''Too Many Requests'' @ q)
          \<or> (\<exists>m p q. err_message e = Some m \<and> m = p @ ''429'' @ q)"
    by (intro allI) (rule isThrottled_iff)
  have 7: "0 < batchSize cfg \<and> 0 < maxConcurrent cfg \<longrightarrow>
        loadNFTs cfg attempts N \<noteq> None
        \<and> map_option (map task_runs) (loadNFTs cfg attempts N)
            = map_option (map (\<lambda>b. map (\<lambda>j. loadNFT cfg (attempts j) j) (batchPromises b)))
                (loadNFTs cfg attempts N)"
  proof (intro impI, elim conjE)
    assume "0 < batchSize cfg" "0 < maxConcurrent cfg"
    then show "loadNFTs cfg attempts N \<noteq> None
        \<and> map_option (map task_runs) (loadNFTs cfg attempts N)
            = map_option (map (\<lambda>b. map (\<lambda>j. loadNFT cfg (attempts j) j) (batchPromises b)))
                (loadNFTs cfg attempts N)"
      by (rule loadNFTs_task_runs)
  qed
  from 1 2 3 4 5 6 7 show ?thesis by (intro conjI)
qed

theorem loadNFT_retry_once_witness:
  "first_throttled (example_attempts 10)
   \<and> task_events (loadNFT RATE_LIMIT_CONFIG (example_attempts 10) 10)
       = [RandomDelay, GetCachedTokenURI 10, RetryDelay 2000, GetCachedTokenURI 10,
          DisplayNFT 10 ''ipfs://x'']
   \<and> attempts_made (loadNFT RATE_LIMIT_CONFIG (example_attempts 10) 10) = 2
   \<and> attempts_made (loadNFT RATE_LIMIT_CONFIG (example_attempts 11) 11) = 1
   \<and> settled (loadNFT RATE_LIMIT_CONFIG (example_attempts 10) 10) = Fulfilled
   \<and> map_option (map (map attempts_made \<circ> task_runs))
        (loadNFTs RATE_LIMIT_CONFIG example_attempts 12)
       = Some [ [1, 1, 2, 1, 1], [1, 1, 1, 1, 1], [1, 1] ]"
proof -
  have ft: "first_throttled (example_attempts 10)"
    by (simp add: first_throttled_def example_attempts_def isThrottled_def)
  have nft: "\<not> first_throttled (example_attempts 11)"
    by (simp add: first_throttled_def example_attempts_def)
  note i10 = loadNFT_retry_once[of RATE_LIMIT_CONFIG "example_attempts 10" 10 example_attempts 12]
  note i11 = loadNFT_retry_once[of RATE_LIMIT_CONFIG "example_attempts 11" 11 example_attempts 12]
  from i10[THEN conjunct2, THEN conjunct2, THEN conjunct2, THEN conjunct1, THEN mp, OF ft]
  have t1: "task_events (loadNFT RATE_LIMIT_CONFIG (example_attempts 10) 10)
       = [RandomDelay, GetCachedTokenURI 10, RetryDelay 2000, GetCachedTokenURI 10,
          DisplayNFT 10 ''ipfs://x'']"
    by (simp add: example_attempts_def RATE_LIMIT_CONFIG_def)
  from i10[THEN conjunct2, THEN conjunct1] ft
  have t2: "attempts_made (loadNFT RATE_LIMIT_CONFIG (example_attempts 10) 10) = 2" by simp
  from i11[THEN conjunct2, THEN conjunct1] nft
  have t3: "attempts_made (loadNFT RATE_LIMIT_CONFIG (example_attempts 11) 11) = 1" by simp
  note t4 = i10[THEN conjunct1]
  have t5: "map_option (map (map attempts_made \<circ> task_runs))
        (loadNFTs RATE_LIMIT_CONFIG example_attempts 12)
       = Some [ [1, 1, 2, 1, 1], [1, 1, 1, 1, 1], [1, 1] ]"
    by (simp add: run_simps loadNFT_def attempts_made_def example_attempts_def isThrottled_def)
  from ft t1 t2 t3 t4 t5 show ?thesis by (intro conjI)
qed


section \<open>\<open>switchNetwork\<close> and keys that are not networks\<close>

lemma property_lookup_NETWORKS:
  "property_lookup NETWORKS key = NoProperty \<longleftrightarrow>
     key \<notin> {''sepolia'', ''mainnet''} \<union> set Object_prototype_keys"
  by (simp add: property_lookup_def NETWORKS_def)

lemma switchNetwork_unknown:
  "property_lookup NETWORKS key = NoProperty \<Longrightarrow>
     switchNetwork storage_set key st = Returned (Boolean False) st"
  by (simp add: switchNetwork_def truthy_def)

text \<open>
  C10 at a concrete input: \<open>"constructor"\<close> is not a key of \<open>NETWORKS\<close>, yet
  \<open>NETWORKS["constructor"]\<close> is the inherited constructor function, which is truthy. The
  guard does not reject it: the current network and the stored preference become
  \<open>"constructor"\<close> and the pagination state is reset before the gallery is reinitialised.
\<close>

theorem switchNetwork_inherited_key:
  "''constructor'' \<notin> set (map fst NETWORKS)
   \<and> switchNetwork (\<lambda>networkKey stored. networkKey) ''constructor''
        \<lparr>currentNetwork = ''mainnet'', networkStorage = ''mainnet'', TOKEN_URI_CACHE = [],
         view = twelve_view\<rparr>
      = AwaitInitializeGallery
        \<lparr>currentNetwork = ''constructor'', networkStorage = ''constructor'', TOKEN_URI_CACHE = [],
         view = \<lparr>UNREVEALED_PAGINATION =
                   \<lparr>itemsPerPage = 5, currentPage = 1, totalItems = 0, data = []\<rparr>,
                 unrevealedTable = unrevealedTable twelve_view\<rparr>\<rparr>"
  by (simp add: switchNetwork_def truthy_def property_lookup_def NETWORKS_def
      Object_prototype_keys_def twelve_view_def)

end
